theory Spec2Isabelle
  imports Main "HOL-Library.Sublist"
begin

section \<open>Python strings\<close>

text \<open>
  A Python \<open>str\<close> is modelled as a \<open>string\<close>; a \<open>char\<close> stands for a code point below
  256, and the character classes are Python's on that range: \<open>str.isspace\<close>,
  \<open>str.isalpha\<close>, \<open>str.isdigit\<close> and \<open>str.lower\<close>.
\<close>

definition isspace :: "char \<Rightarrow> bool" where
  "isspace c =
     (let n = (of_char c :: nat)
      in (9 \<le> n \<and> n \<le> 13) \<or> (28 \<le> n \<and> n \<le> 32) \<or> n = 133 \<or> n = 160)"

definition isalpha :: "char \<Rightarrow> bool" where
  "isalpha c =
     (let n = (of_char c :: nat)
      in (65 \<le> n \<and> n \<le> 90) \<or> (97 \<le> n \<and> n \<le> 122) \<or> n = 170 \<or> n = 181 \<or> n = 186 \<or>
         (192 \<le> n \<and> n \<le> 214) \<or> (216 \<le> n \<and> n \<le> 246) \<or> (248 \<le> n \<and> n \<le> 255))"

definition isdigit :: "char \<Rightarrow> bool" where
  "isdigit c =
     (let n = (of_char c :: nat)
      in (48 \<le> n \<and> n \<le> 57) \<or> n = 178 \<or> n = 179 \<or> n = 185)"

definition lower_char :: "char \<Rightarrow> char" where
  "lower_char c =
     (let n = (of_char c :: nat)
      in if (65 \<le> n \<and> n \<le> 90) \<or> (192 \<le> n \<and> n \<le> 214) \<or> (216 \<le> n \<and> n \<le> 222)
         then char_of (n + 32) else c)"

definition lower :: "string \<Rightarrow> string" where
  "lower s = map lower_char s"

definition lstrip :: "string \<Rightarrow> string" where
  "lstrip s = dropWhile isspace s"

definition rstrip :: "string \<Rightarrow> string" where
  "rstrip s = rev (dropWhile isspace (rev s))"

definition strip :: "string \<Rightarrow> string" where
  "strip s = lstrip (rstrip s)"

definition startswith :: "string \<Rightarrow> string \<Rightarrow> bool" where
  "startswith s p = (take (length p) s = p)"

text \<open>\<open>sep.join(xs)\<close>.\<close>

fun join :: "string \<Rightarrow> string list \<Rightarrow> string" where
  "join sep [] = []"
| "join sep [x] = x"
| "join sep (x # y # ys) = x @ sep @ join sep (y # ys)"

section \<open>The archive writer\<close>

text \<open>
  The internal message built by the download loop: the dictionary with the keys
  \<open>from\<close>, \<open>body\<close>, \<open>attachments\<close> and \<open>time\<close>. Sender, body and time are strings; an
  attachment descriptor is opaque and is represented by the text Python's \<open>repr\<close> prints
  for it, so that \<open>str\<close> of the list is the bracketed, comma-separated list of them.
\<close>

record message =
  msg_from :: string
  msg_body :: string
  msg_attachments :: "string list"
  msg_time :: string

definition str_list :: "string list \<Rightarrow> string" where
  "str_list xs = ''['' @ join '', '' xs @ '']''"

text \<open>
  \<open>_to_filename\<close>: the letters, digits and spaces of the title, right-stripped, with the
  extension \<open>.md\<close>.
\<close>

definition keep_char :: "char \<Rightarrow> bool" where
  "keep_char c = (isalpha c \<or> isdigit c \<or> c = CHR '' '')"

definition to_filename :: "string \<Rightarrow> string" where
  "to_filename title = rstrip (filter keep_char title) @ ''.md''"

text \<open>The test that makes the writer skip a message: blank body and no attachments.\<close>

definition skipped :: "message \<Rightarrow> bool" where
  "skipped msg = (strip (msg_body msg) = [] \<and> msg_attachments msg = [])"

text \<open>The entry of one message: the header line, the body, and the attachments if any.\<close>

definition line :: "message \<Rightarrow> string" where
  "line msg =
     (let l = ''##### '' @ msg_from msg @ '' - '' @ msg_time msg @ ''\<newline>'' @ msg_body msg
      in if msg_attachments msg \<noteq> []
         then l @ ''\<newline>attachments:\<newline>```'' @ str_list (msg_attachments msg) @ ''```''
         else l)"

text \<open>
  The body of the \<open>for msg in reversed(messages)\<close> loop, and the loop itself, which
  appends to \<open>lines\<close>.
\<close>

definition add_line :: "string list \<Rightarrow> message \<Rightarrow> string list" where
  "add_line lines msg = (if skipped msg then lines else lines @ [line msg])"

definition add_lines :: "string list \<Rightarrow> message list \<Rightarrow> string list" where
  "add_lines lines messages = foldl add_line lines (rev messages)"

text \<open>
  The folder of archives is a map from file names to the characters stored in each
  file. The writer reads and writes in text mode with universal newlines. On reading
  (\<open>Path.read_text\<close>), a carriage return followed by a line feed, and a carriage return
  alone, become a line feed. On writing (\<open>open(f, "w")\<close>), every line feed becomes the line
  separator of the system, \<open>os.linesep\<close>; the model is that of a POSIX system, where it
  is the line feed itself.
\<close>

type_synonym folder = "string \<rightharpoonup> string"

fun universal_newlines :: "string \<Rightarrow> string" where
  "universal_newlines [] = []"
| "universal_newlines [c] = (if c = CHR 0x0D then ''\<newline>'' else [c])"
| "universal_newlines (c # d # cs) =
     (if c = CHR 0x0D
      then (if d = CHR ''\<newline>'' then CHR ''\<newline>'' # universal_newlines cs
            else CHR ''\<newline>'' # universal_newlines (d # cs))
      else c # universal_newlines (d # cs))"

definition os_linesep :: string where
  "os_linesep = ''\<newline>''"

definition write_text :: "string \<Rightarrow> string" where
  "write_text s = concat (map (\<lambda>c. if c = CHR ''\<newline>'' then os_linesep else [c]) s)"

text \<open>
  \<open>f.read_text(encoding="utf-8") if f.exists() else ""\<close>: a file that does not exist
  reads as the empty text.
\<close>

definition read_existing :: "folder \<Rightarrow> string \<Rightarrow> string" where
  "read_existing fs f = (case fs f of Some text \<Rightarrow> universal_newlines text | None \<Rightarrow> [])"

definition save_msg :: "message list \<Rightarrow> string \<Rightarrow> folder \<Rightarrow> folder" where
  "save_msg messages title fs =
     (let f = to_filename title;
          existing = read_existing fs f;
          lines = add_lines (if existing = [] then [''## '' @ title] else []) messages;
          content = join ''\<newline>\<newline>'' lines
      in fs(f \<mapsto> write_text content @ write_text ''\<newline>\<newline>'' @ write_text existing))"

text \<open>
  The entries one call of the writer adds, and the archive of a title: the characters
  stored in its file, none when the file does not exist.
\<close>

definition new_entries :: "message list \<Rightarrow> string list" where
  "new_entries messages = add_lines [] messages"

definition archive :: "folder \<Rightarrow> string \<Rightarrow> string" where
  "archive fs title = (case fs (to_filename title) of Some text \<Rightarrow> text | None \<Rightarrow> [])"

text \<open>A sequence of flushes of the same conversation, first batch first.\<close>

definition flushes :: "message list list \<Rightarrow> string \<Rightarrow> folder \<Rightarrow> folder" where
  "flushes batches title fs = foldl (\<lambda>fs b. save_msg b title fs) fs batches"

text \<open>The first line of a text.\<close>

definition first_line :: "string \<Rightarrow> string" where
  "first_line text = takeWhile (\<lambda>c. c \<noteq> CHR ''\<newline>'') text"

section \<open>Dates\<close>

text \<open>
  A \<open>datetime.date\<close>: year, month and day, compared lexicographically as Python does.
\<close>

record date =
  year :: nat
  month :: nat
  day :: nat

definition date_less :: "date \<Rightarrow> date \<Rightarrow> bool" where
  "date_less a b =
     (year a < year b \<or> (year a = year b \<and> (month a < month b \<or>
        (month a = month b \<and> day a < day b))))"

text \<open>
  The two parsers of the standard library that \<open>load_date\<close> calls are parameters of the
  model, since the texts they accept depend on the version of Python:
  \<open>datetime.fromisoformat\<close> followed by \<open>.date()\<close>, and \<open>date.fromisoformat\<close>. Each gives
  \<open>None\<close> where the library raises \<open>ValueError\<close>.
\<close>

record stdlib =
  datetime_fromisoformat :: "string \<Rightarrow> date option"
  date_fromisoformat :: "string \<Rightarrow> date option"

datatype error = HTTPError nat | EOFError | KeyError | ValueError

text \<open>
  \<open>load_date\<close>: the text as it is, then without any \<open>Z\<close>, then the part before the first
  \<open>T\<close> as a plain date, whose \<open>ValueError\<close> is not caught.
\<close>

definition load_date :: "stdlib \<Rightarrow> string \<Rightarrow> error + date" where
  "load_date lib s =
     (case datetime_fromisoformat lib s of
        Some dt \<Rightarrow> Inr dt
      | None \<Rightarrow>
          (case datetime_fromisoformat lib (filter (\<lambda>c. c \<noteq> CHR ''Z'') s) of
             Some dt \<Rightarrow> Inr dt
           | None \<Rightarrow>
               (case date_fromisoformat lib (takeWhile (\<lambda>c. c \<noteq> CHR ''T'') s) of
                  Some d \<Rightarrow> Inr d
                | None \<Rightarrow> Inl ValueError)))"

section \<open>The checkpoint store\<close>

text \<open>
  The temp file holds the progress of every chat and the cached chat list; \<open>None\<close> is
  the file that does not exist.
\<close>

record chat =
  chat_id :: string
  chat_name :: string

record progress =
  next_url :: "string option"
  num :: int

record temp =
  chat_progress :: "string \<rightharpoonup> progress"
  chat_list :: "chat list"

section \<open>The download loop\<close>

text \<open>
  A record of a page as the loop reads it: each field is the value of the subscript
  expression the loop evaluates, \<open>None\<close> where evaluating it raises (a missing key, or a
  \<open>null\<close> on the way to it).
\<close>

record raw =
  messageType :: "string option"
  createdDateTime :: "string option"
  from_user_displayName :: "string option"
  body_content :: "string option"
  attachments :: "string list option"

record page =
  page_value :: "raw list"
  nextLink :: "string option"

record response =
  status_code :: nat
  json :: page

text \<open>The parameters of \<open>download_chat\<close>.\<close>

record config =
  chat :: chat
  max_messages :: "int option"
  oldest_date :: "date option"
  ask_continue :: int
  skip_downloaded :: bool

text \<open>
  The variables of \<open>download_chat\<close> that its closures share, with the files and the
  console input the run reads: the lines that \<open>input()\<close> will return, in order.
\<close>

record state =
  url :: string
  params :: "(string \<times> string) list option"
  messages :: "message list"
  num_requests :: int
  since_confirm :: int
  tot_msg :: int
  temp_file :: "temp option"
  chats_folder :: folder
  stdin :: "string list"

definition GRAPH_URL :: string where
  "GRAPH_URL = ''https://graph.microsoft.com/v1.0/chats''"

definition MESSAGES_PATH :: string where
  "MESSAGES_PATH = ''messages''"

definition TOP_PARAM :: "(string \<times> string) list" where
  "TOP_PARAM = [(''$top'', ''50'')]"

definition SAVE_EVERY :: int where
  "SAVE_EVERY = 250"

definition read_temp_file :: "state \<Rightarrow> temp" where
  "read_temp_file st =
     (case temp_file st of
        Some t \<Rightarrow> t
      | None \<Rightarrow> \<lparr>chat_progress = Map.empty, chat_list = []\<rparr>)"

definition update_temp_file :: "config \<Rightarrow> string option \<Rightarrow> state \<Rightarrow> state" where
  "update_temp_file cfg nxt st =
     (let current = read_temp_file st
      in st\<lparr>temp_file := Some (current\<lparr>chat_progress :=
           (chat_progress current)(chat_id (chat cfg) \<mapsto> \<lparr>next_url = nxt, num = num_requests st\<rparr>)\<rparr>)\<rparr>)"

text \<open>\<open>input()\<close>: the next line of the console, \<open>EOFError\<close> when there is none.\<close>

definition input :: "state \<Rightarrow> error + (string \<times> state)" where
  "input st =
     (case stdin st of
        [] \<Rightarrow> Inl EOFError
      | l # ls \<Rightarrow> Inr (l, st\<lparr>stdin := ls\<rparr>))"

text \<open>\<open>answer.strip().lower().startswith(c)\<close>.\<close>

definition answers :: "string \<Rightarrow> string \<Rightarrow> bool" where
  "answers answer c = startswith (lower (strip answer)) c"

text \<open>The truth value of an optional text: \<open>None\<close> and the empty text are false.\<close>

definition truthy :: "string option \<Rightarrow> bool" where
  "truthy u = (case u of None \<Rightarrow> False | Some s \<Rightarrow> s \<noteq> [])"

text \<open>
  The test \<open>oldest_date and oldest_date > load_date(msg["createdDateTime"])\<close>; the
  record's date is read only when a cutoff is configured.
\<close>

definition too_old :: "stdlib \<Rightarrow> date option \<Rightarrow> raw \<Rightarrow> error + bool" where
  "too_old lib oldest msg =
     (case oldest of
        None \<Rightarrow> Inr False
      | Some d \<Rightarrow>
          (case createdDateTime msg of
             None \<Rightarrow> Inl KeyError
           | Some s \<Rightarrow>
               (case load_date lib s of
                  Inl e \<Rightarrow> Inl e
                | Inr d' \<Rightarrow> Inr (date_less d' d))))"

text \<open>The dictionary the loop appends; any subscript that raises makes it fail.\<close>

definition to_message :: "raw \<Rightarrow> message option" where
  "to_message msg =
     (case from_user_displayName msg of None \<Rightarrow> None | Some f \<Rightarrow>
      (case body_content msg of None \<Rightarrow> None | Some b \<Rightarrow>
       (case attachments msg of None \<Rightarrow> None | Some a \<Rightarrow>
        (case createdDateTime msg of None \<Rightarrow> None | Some t \<Rightarrow>
           Some \<lparr>msg_from = f, msg_body = b, msg_attachments = a, msg_time = t\<rparr>))))"

text \<open>The test \<open>max_messages and tot_msg >= max_messages\<close>.\<close>

definition max_reached :: "int option \<Rightarrow> int \<Rightarrow> bool" where
  "max_reached mm tot = (case mm of None \<Rightarrow> False | Some n \<Rightarrow> n \<noteq> 0 \<and> tot \<ge> n)"

text \<open>
  The \<open>return\<close> statements of \<open>loop\<close>, named after what they print: the message limit,
  the date cutoff, the end of the pages, and the user's answer.
\<close>

datatype stop = MaxReached | OldestReached | Exhausted | Declined

text \<open>
  The \<open>for msg in data["value"]\<close> loop. An exception inside the \<open>try\<close> is logged and the
  record is left out; \<open>Some\<close> is a \<open>return\<close> from inside the loop.
\<close>

fun for_msg :: "stdlib \<Rightarrow> config \<Rightarrow> raw list \<Rightarrow> state \<Rightarrow> stop option \<times> state" where
  "for_msg lib cfg [] st = (None, st)"
| "for_msg lib cfg (msg # rest) st =
     (case messageType msg of
        None \<Rightarrow> for_msg lib cfg rest st
      | Some ty \<Rightarrow>
          if ty \<noteq> ''message'' then for_msg lib cfg rest st
          else
            (case too_old lib (oldest_date cfg) msg of
               Inl e \<Rightarrow> for_msg lib cfg rest st
             | Inr True \<Rightarrow> (Some OldestReached, st)
             | Inr False \<Rightarrow>
                 (case to_message msg of
                    None \<Rightarrow> for_msg lib cfg rest st
                  | Some m \<Rightarrow>
                      (let st' = st\<lparr>messages := messages st @ [m], tot_msg := tot_msg st + 1\<rparr>
                       in if max_reached (max_messages cfg) (tot_msg st')
                          then (Some MaxReached, st')
                          else for_msg lib cfg rest st'))))"

text \<open>The flush of the buffer once it holds more than \<open>SAVE_EVERY\<close> messages.\<close>

definition save_if_many :: "config \<Rightarrow> state \<Rightarrow> state" where
  "save_if_many cfg st =
     (if int (length (messages st)) > SAVE_EVERY
      then st\<lparr>chats_folder := save_msg (messages st) (chat_name (chat cfg)) (chats_folder st),
              messages := []\<rparr>
      else st)"

text \<open>The end of an iteration that goes on to the next page.\<close>

definition next_page :: "string option \<Rightarrow> state \<Rightarrow> state" where
  "next_page nxt st =
     st\<lparr>num_requests := num_requests st + 1, since_confirm := since_confirm st + 1,
        url := (case nxt of Some u \<Rightarrow> u | None \<Rightarrow> []), params := None\<rparr>"

text \<open>
  One iteration of \<open>while True\<close> on the response to its request. \<open>Some\<close> ends the loop,
  with the exception raised or the \<open>return\<close> taken; \<open>None\<close> goes round again.
\<close>

definition loop_body ::
  "stdlib \<Rightarrow> config \<Rightarrow> response \<Rightarrow> state \<Rightarrow> (error + stop) option \<times> state" where
  "loop_body lib cfg res st =
     (if 400 \<le> status_code res \<and> status_code res < 600
      then (Some (Inl (HTTPError (status_code res))), st)
      else
        (case for_msg lib cfg (page_value (json res)) st of
           (Some s, st1) \<Rightarrow> (Some (Inr s), st1)
         | (None, st1) \<Rightarrow>
             (let st2 = save_if_many cfg st1;
                  nxt = nextLink (json res);
                  st3 = update_temp_file cfg nxt st2
              in if \<not> truthy nxt then (Some (Inr Exhausted), st3)
                 else if ask_continue cfg > 0 \<and> since_confirm st3 = ask_continue cfg
                 then
                   (case input st3 of
                      Inl e \<Rightarrow> (Some (Inl e), st3)
                    | Inr (answer, st4) \<Rightarrow>
                        if answers answer ''n'' then (Some (Inr Declined), st4)
                        else (None, next_page nxt (st4\<lparr>since_confirm := 0\<rparr>)))
                 else (None, next_page nxt st3))))"

text \<open>
  \<open>loop\<close>. The server is the list of the responses that the requests of the run
  receive, in order; the loop answers \<open>None\<close> when it asks for a response beyond the
  list, and gives back the responses it has not asked for.
\<close>

fun loop ::
  "stdlib \<Rightarrow> config \<Rightarrow> response list \<Rightarrow> state \<Rightarrow>
     ((error + stop) \<times> state \<times> response list) option" where
  "loop lib cfg [] st = None"
| "loop lib cfg (res # server) st =
     (case loop_body lib cfg res st of
        (Some r, st') \<Rightarrow> Some (r, st', server)
      | (None, st') \<Rightarrow> loop lib cfg server st')"

text \<open>
  The start of \<open>download_chat\<close>: where to begin, from the checkpoint and the user's
  answers. It goes on to the loop, or it is the \<open>return\<close> for a chat that is already
  downloaded, or \<open>input()\<close> raises; each with the state reached, in which the answer
  read from the console is consumed.
\<close>

datatype entry = Proceed state | Return state | Raise error state

definition resume :: "config \<Rightarrow> state \<Rightarrow> entry" where
  "resume cfg st =
     (let st0 = st\<lparr>url := GRAPH_URL @ ''/'' @ chat_id (chat cfg) @ ''/'' @ MESSAGES_PATH,
                   params := Some TOP_PARAM\<rparr>
      in case chat_progress (read_temp_file st0) (chat_id (chat cfg)) of
           None \<Rightarrow> Proceed st0
         | Some existing \<Rightarrow>
             if truthy (next_url existing) then
               (case input st0 of
                  Inl e \<Rightarrow> Raise e st0
                | Inr (answer, st1) \<Rightarrow>
                    if answers answer ''y''
                    then Proceed (st1\<lparr>url := (case next_url existing of Some u \<Rightarrow> u | None \<Rightarrow> []),
                                      params := None\<rparr>)
                    else Proceed st1)
             else if skip_downloaded cfg then Return st0
             else
               (case input st0 of
                  Inl e \<Rightarrow> Raise e st0
                | Inr (answer, st1) \<Rightarrow>
                    if answers answer ''n'' then Return st1 else Proceed st1))"

text \<open>
  How \<open>download_chat\<close> returns: at once for a chat already downloaded, after a 403, or at
  its end, after the loop has returned.
\<close>

datatype finish = AlreadyDownloaded | CannotDownload | Done stop

text \<open>The last statements of \<open>download_chat\<close>: what is left in the buffer is saved.\<close>

definition save_rest :: "config \<Rightarrow> state \<Rightarrow> state" where
  "save_rest cfg st =
     (if messages st \<noteq> []
      then st\<lparr>chats_folder := save_msg (messages st) (chat_name (chat cfg)) (chats_folder st)\<rparr>
      else st)"

text \<open>The variables that \<open>download_chat\<close> sets before it calls \<open>loop\<close>.\<close>

definition start :: "state \<Rightarrow> state" where
  "start st = st\<lparr>messages := [], num_requests := 1, since_confirm := 1, tot_msg := 0\<rparr>"

definition download_chat ::
  "stdlib \<Rightarrow> config \<Rightarrow> response list \<Rightarrow> state \<Rightarrow> ((error + finish) \<times> state) option" where
  "download_chat lib cfg server st =
     (case resume cfg st of
        Raise e st1 \<Rightarrow> Some (Inl e, st1)
      | Return st1 \<Rightarrow> Some (Inr AlreadyDownloaded, st1)
      | Proceed st0 \<Rightarrow>
          (case loop lib cfg server (start st0) of
             None \<Rightarrow> None
           | Some (Inl e, st', rest) \<Rightarrow>
               if e = HTTPError 403 then Some (Inr CannotDownload, st') else Some (Inl e, st')
           | Some (Inr s, st', rest) \<Rightarrow> Some (Inr (Done s), save_rest cfg st')))"

section \<open>Accounting of the accepted messages\<close>

text \<open>
  Between two states of a run, every message of the buffer is accounted for: what was
  in the buffer and what has been accepted since is what has been flushed, batch after
  batch, followed by what the buffer holds now; the counter has grown by the number of
  messages accepted; and the folder is the result of these flushes.
\<close>

definition accounted :: "config \<Rightarrow> state \<Rightarrow> state \<Rightarrow> bool" where
  "accounted cfg st st' =
     (\<exists>new flushed. concat flushed @ messages st' = messages st @ new \<and>
        tot_msg st' = tot_msg st + int (length new) \<and>
        chats_folder st' = flushes flushed (chat_name (chat cfg)) (chats_folder st))"

text \<open>
  What the loop over a page does with a record. A record of type \<open>message\<close> that is
  older than the cutoff stops the loop. The loop accepts the records of type
  \<open>message\<close> that are not older than the cutoff, the date being read only when a cutoff
  is configured, and whose fields can all be read. The records of a page up to the
  first one that stops the loop are those before the cutoff.
\<close>

definition stopper :: "stdlib \<Rightarrow> config \<Rightarrow> raw \<Rightarrow> bool" where
  "stopper lib cfg msg =
     (messageType msg = Some ''message'' \<and> too_old lib (oldest_date cfg) msg = Inr True)"

definition candidate :: "stdlib \<Rightarrow> config \<Rightarrow> raw \<Rightarrow> message option" where
  "candidate lib cfg msg =
     (if messageType msg = Some ''message'' \<and> too_old lib (oldest_date cfg) msg = Inr False
      then to_message msg else None)"

definition candidates :: "stdlib \<Rightarrow> config \<Rightarrow> raw list \<Rightarrow> message list" where
  "candidates lib cfg rs = List.map_filter (candidate lib cfg) rs"

definition stream_candidates :: "stdlib \<Rightarrow> config \<Rightarrow> response list \<Rightarrow> message list" where
  "stream_candidates lib cfg server =
     concat (map (\<lambda>res. candidates lib cfg (page_value (json res))) server)"

definition before_cutoff :: "stdlib \<Rightarrow> config \<Rightarrow> raw list \<Rightarrow> raw list" where
  "before_cutoff lib cfg rs = takeWhile (\<lambda>msg. \<not> stopper lib cfg msg) rs"

text \<open>
  The number of questions that the loop puts to the user in the course of \<open>n\<close> pages
  that go on to a next page, when it asks every \<open>a\<close> requests and \<open>since_confirm\<close> is
  \<open>sc\<close> at the first of these pages: none when \<open>a\<close> is not positive.
\<close>

definition prompts :: "int \<Rightarrow> int \<Rightarrow> nat \<Rightarrow> nat" where
  "prompts a sc n = (if 0 < a then nat ((sc - 1 + int n) div a) else 0)"

section \<open>Inputs for running the model\<close>

text \<open>
  A small instance of the library: it reads \<open>YYYY-MM-DD\<close>, alone or followed by a
  separator and \<open>HH:MM:SS\<close>, and rejects every other text.
\<close>

definition digit :: "char \<Rightarrow> nat option" where
  "digit c = (let n = (of_char c :: nat) in if 48 \<le> n \<and> n \<le> 57 then Some (n - 48) else None)"

fun digits :: "nat \<Rightarrow> string \<Rightarrow> nat option" where
  "digits a [] = Some a"
| "digits a (c # cs) = (case digit c of None \<Rightarrow> None | Some d \<Rightarrow> digits (10 * a + d) cs)"

definition days_in_month :: "nat \<Rightarrow> nat \<Rightarrow> nat" where
  "days_in_month y m =
     (if m = 2 then (if y mod 4 = 0 \<and> (y mod 100 \<noteq> 0 \<or> y mod 400 = 0) then 29 else 28)
      else if m = 4 \<or> m = 6 \<or> m = 9 \<or> m = 11 then 30 else 31)"

definition make_date :: "nat option \<Rightarrow> nat option \<Rightarrow> nat option \<Rightarrow> date option" where
  "make_date y m d =
     (case y of None \<Rightarrow> None | Some y' \<Rightarrow>
      (case m of None \<Rightarrow> None | Some m' \<Rightarrow>
       (case d of None \<Rightarrow> None | Some d' \<Rightarrow>
          if 1 \<le> y' \<and> 1 \<le> m' \<and> m' \<le> 12 \<and> 1 \<le> d' \<and> d' \<le> days_in_month y' m'
          then Some \<lparr>year = y', month = m', day = d'\<rparr> else None)))"

fun basic_date :: "string \<Rightarrow> date option" where
  "basic_date [y1, y2, y3, y4, s1, m1, m2, s2, d1, d2] =
     (if s1 = CHR ''-'' \<and> s2 = CHR ''-''
      then make_date (digits 0 [y1, y2, y3, y4]) (digits 0 [m1, m2]) (digits 0 [d1, d2])
      else None)"
| "basic_date _ = None"

fun basic_time :: "string \<Rightarrow> bool" where
  "basic_time [] = True"
| "basic_time [sep, h1, h2, c1, m1, m2, c2, s1, s2] =
     (c1 = CHR '':'' \<and> c2 = CHR '':'' \<and>
      (case digits 0 [h1, h2] of None \<Rightarrow> False | Some h \<Rightarrow> h < 24) \<and>
      (case digits 0 [m1, m2] of None \<Rightarrow> False | Some m \<Rightarrow> m < 60) \<and>
      (case digits 0 [s1, s2] of None \<Rightarrow> False | Some s \<Rightarrow> s < 60))"
| "basic_time _ = False"

definition basic_datetime :: "string \<Rightarrow> date option" where
  "basic_datetime s = (if basic_time (drop 10 s) then basic_date (take 10 s) else None)"

definition basic_lib :: stdlib where
  "basic_lib = \<lparr>datetime_fromisoformat = basic_datetime, date_fromisoformat = basic_date\<rparr>"

text \<open>
  A well-formed record of type \<open>message\<close> without attachments, a page served with
  status 200, a failed request, the state before any run, and the parameters of a
  download of the chat \<open>T\<close>.
\<close>

definition plain :: "string \<Rightarrow> string \<Rightarrow> string \<Rightarrow> raw" where
  "plain sender body time =
     \<lparr>messageType = Some ''message'', createdDateTime = Some time,
      from_user_displayName = Some sender, body_content = Some body, attachments = Some []\<rparr>"

definition ok_page :: "raw list \<Rightarrow> string option \<Rightarrow> response" where
  "ok_page rs nxt = \<lparr>status_code = 200, json = \<lparr>page_value = rs, nextLink = nxt\<rparr>\<rparr>"

definition failed :: "nat \<Rightarrow> response" where
  "failed c = \<lparr>status_code = c, json = \<lparr>page_value = [], nextLink = None\<rparr>\<rparr>"

definition fresh :: state where
  "fresh = \<lparr>url = [], params = None, messages = [], num_requests = 0, since_confirm = 0,
     tot_msg = 0, temp_file = None, chats_folder = Map.empty, stdin = []\<rparr>"

definition settings :: "int option \<Rightarrow> date option \<Rightarrow> int \<Rightarrow> config" where
  "settings mm od ac =
     \<lparr>chat = \<lparr>chat_id = ''c1'', chat_name = ''T''\<rparr>, max_messages = mm, oldest_date = od,
      ask_continue = ac, skip_downloaded = False\<rparr>"

text \<open>
  Messages for the writer: two plain ones, and one whose body holds a carriage return
  before a line feed.
\<close>

definition al :: message where
  "al = \<lparr>msg_from = ''Al'', msg_body = ''first'', msg_attachments = [], msg_time = ''t1''\<rparr>"

definition cy :: message where
  "cy = \<lparr>msg_from = ''Cy'', msg_body = [CHR ''a'', CHR 0x0D, CHR ''\<newline>'', CHR ''b''],
     msg_attachments = [], msg_time = ''t0''\<rparr>"

definition bo :: message where
  "bo = \<lparr>msg_from = ''Bo'', msg_body = ''second'', msg_attachments = [], msg_time = ''t2''\<rparr>"

section \<open>Auxiliary lemmas\<close>


subsection \<open>Characters and the writer\<close>

lemma space_code: "of_char c = (32::nat) \<longleftrightarrow> c = CHR '' ''"
proof -
  have "of_char (CHR '' '') = (32::nat)" by simp
  then show ?thesis by (metis of_char_eq_iff)
qed

lemma keep_space: "keep_char c \<Longrightarrow> isspace c \<Longrightarrow> c = CHR '' ''"
  unfolding keep_char_def isspace_def isalpha_def isdigit_def Let_def
  using space_code [of c] by auto

lemma isspace_space: "isspace CHR '' ''"
  by (simp add: isspace_def)

lemma add_lines_eq: "foldl add_line ls ms = ls @ map line (filter (\<lambda>m. \<not> skipped m) ms)"
  by (induction ms arbitrary: ls) (auto simp: add_line_def)

lemma new_entries_eq: "new_entries ms = rev (map line (filter (\<lambda>m. \<not> skipped m) ms))"
  by (simp add: new_entries_def add_lines_def add_lines_eq rev_map rev_filter)

lemma add_lines_new: "add_lines ls ms = ls @ new_entries ms"
  by (simp add: new_entries_def add_lines_def add_lines_eq)

lemma write_text_posix: "write_text s = s"
  by (induction s) (simp_all add: write_text_def os_linesep_def)

lemma universal_newlines_Nil: "universal_newlines s = [] \<longleftrightarrow> s = []"
  by (induction s rule: universal_newlines.induct) simp_all

lemma universal_newlines_same: "CHR 0x0D \<notin> set s \<Longrightarrow> universal_newlines s = s"
  by (induction s rule: universal_newlines.induct) auto

lemma read_existing_archive: "read_existing fs (to_filename t) = universal_newlines (archive fs t)"
  by (simp add: read_existing_def archive_def split: option.splits)

lemma archive_save_msg:
  "archive (save_msg ms t fs) t =
     join ''\<newline>\<newline>'' ((if archive fs t = [] then [''## '' @ t] else []) @ new_entries ms)
       @ ''\<newline>\<newline>'' @ universal_newlines (archive fs t)"
  by (simp add: save_msg_def Let_def read_existing_archive universal_newlines_Nil write_text_posix
      add_lines_new)
     (simp add: archive_def)

lemma save_msg_other: "f \<noteq> to_filename t \<Longrightarrow> save_msg ms t fs f = fs f"
  by (simp add: save_msg_def Let_def)

subsection \<open>The loop over the records of a page\<close>

lemma for_msg_append:
  "for_msg lib cfg (xs @ ys) st =
     (case for_msg lib cfg xs st of
        (Some s, st1) \<Rightarrow> (Some s, st1)
      | (None, st1) \<Rightarrow> for_msg lib cfg ys st1)"
  by (induction xs arbitrary: st)
     (auto simp: Let_def split: option.splits sum.splits bool.splits)

lemma for_msg_frame:
  "for_msg lib cfg rs st = (r, st1) \<Longrightarrow>
     temp_file st1 = temp_file st \<and> chats_folder st1 = chats_folder st \<and>
     stdin st1 = stdin st \<and> num_requests st1 = num_requests st \<and>
     since_confirm st1 = since_confirm st \<and> url st1 = url st \<and> params st1 = params st"
proof (induction rs arbitrary: st)
  case Nil
  then show ?case by simp
next
  case (Cons msg rs)
  show ?case
    using Cons.prems Cons.IH [of st]
      Cons.IH [of "st\<lparr>messages := messages st @ [m], tot_msg := tot_msg st + 1\<rparr>" for m]
    by (auto simp: Let_def split: option.splits sum.splits bool.splits if_splits)
qed

lemma for_msg_no_max:
  "max_messages cfg = None \<or> max_messages cfg = Some 0 \<Longrightarrow>
     fst (for_msg lib cfg rs st) \<noteq> Some MaxReached"
  by (induction rs arbitrary: st)
     (auto simp: Let_def max_reached_def split: option.splits sum.splits bool.splits)

lemma for_msg_grows:
  "for_msg lib cfg rs st = (r, st1) \<Longrightarrow>
     \<exists>new. messages st1 = messages st @ new \<and> tot_msg st1 = tot_msg st + int (length new)"
proof (induction rs arbitrary: st)
  case Nil
  then show ?case by simp
next
  case (Cons msg rs)
  show ?case
    using Cons.prems Cons.IH [of st]
      Cons.IH [of "st\<lparr>messages := messages st @ [m], tot_msg := tot_msg st + 1\<rparr>" for m]
    apply (auto simp: Let_def split: option.splits sum.splits bool.splits if_splits)
    apply force+
    done
qed

subsection \<open>Flushes and the accounting of a run\<close>

lemma flushes_Nil: "flushes [] t fs = fs"
  by (simp add: flushes_def)

lemma flushes_snoc: "flushes (bs @ [b]) t fs = save_msg b t (flushes bs t fs)"
  by (simp add: flushes_def)

lemma flushes_append: "flushes (as @ bs) t fs = flushes bs t (flushes as t fs)"
  by (simp add: flushes_def)

lemma flushes_single: "flushes [b] t fs = save_msg b t fs"
  by (simp add: flushes_def)

lemma accounted_refl: "accounted cfg st st"
  unfolding accounted_def
  by (rule exI [of _ "[]"], rule exI [of _ "[]"]) (simp add: flushes_Nil)

lemma accounted_trans:
  assumes "accounted cfg a b" and "accounted cfg b c"
  shows "accounted cfg a c"
proof -
  from assms(1) obtain n1 f1 where 1: "concat f1 @ messages b = messages a @ n1"
    "tot_msg b = tot_msg a + int (length n1)"
    "chats_folder b = flushes f1 (chat_name (chat cfg)) (chats_folder a)"
    unfolding accounted_def by blast
  from assms(2) obtain n2 f2 where 2: "concat f2 @ messages c = messages b @ n2"
    "tot_msg c = tot_msg b + int (length n2)"
    "chats_folder c = flushes f2 (chat_name (chat cfg)) (chats_folder b)"
    unfolding accounted_def by blast
  have "concat (f1 @ f2) @ messages c = messages a @ (n1 @ n2)"
    using 1(1) 2(1) by (metis append.assoc concat_append)
  moreover have "tot_msg c = tot_msg a + int (length (n1 @ n2))"
    using 1(2) 2(2) by simp
  moreover have "chats_folder c = flushes (f1 @ f2) (chat_name (chat cfg)) (chats_folder a)"
    using 1(3) 2(3) by (simp add: flushes_append)
  ultimately show ?thesis unfolding accounted_def by blast
qed

lemma accounted_for_msg: "for_msg lib cfg rs st = (r, st1) \<Longrightarrow> accounted cfg st st1"
proof -
  assume a: "for_msg lib cfg rs st = (r, st1)"
  from for_msg_grows [OF a] obtain new where
    "messages st1 = messages st @ new" "tot_msg st1 = tot_msg st + int (length new)" by blast
  moreover have "chats_folder st1 = chats_folder st" using for_msg_frame [OF a] by simp
  ultimately show ?thesis unfolding accounted_def
    by (intro exI [of _ new] exI [of _ "[]"]) (simp add: flushes_Nil)
qed

lemma accounted_save_if_many: "accounted cfg st (save_if_many cfg st)"
proof (cases "int (length (messages st)) > SAVE_EVERY")
  case True
  then show ?thesis unfolding accounted_def
    by (intro exI [of _ "[]"] exI [of _ "[messages st]"])
       (simp add: save_if_many_def flushes_single)
next
  case False
  then show ?thesis by (simp add: save_if_many_def accounted_refl)
qed

lemma accounted_same:
  "messages b = messages a \<Longrightarrow> tot_msg b = tot_msg a \<Longrightarrow> chats_folder b = chats_folder a \<Longrightarrow>
     accounted cfg a b"
  unfolding accounted_def
  by (intro exI [of _ "[]"]) (simp add: flushes_Nil)

lemma tail_same:
  "loop_body lib cfg res st = (r, st') \<Longrightarrow> \<not> (400 \<le> status_code res \<and> status_code res < 600) \<Longrightarrow>
   for_msg lib cfg (page_value (json res)) st = (None, st1) \<Longrightarrow>
     messages st' = messages (save_if_many cfg st1) \<and> tot_msg st' = tot_msg (save_if_many cfg st1)
     \<and> chats_folder st' = chats_folder (save_if_many cfg st1)"
  by (auto simp: loop_body_def Let_def update_temp_file_def next_page_def input_def
      split: if_splits sum.splits list.splits prod.splits)

lemma accounted_loop_body:
  assumes "loop_body lib cfg res st = (r, st')"
  shows "accounted cfg st st'"
proof (cases "400 \<le> status_code res \<and> status_code res < 600")
  case True
  with assms show ?thesis by (simp add: loop_body_def accounted_refl)
next
  case False
  obtain s st1 where f: "for_msg lib cfg (page_value (json res)) st = (s, st1)"
    by (cases "for_msg lib cfg (page_value (json res)) st")
  show ?thesis
  proof (cases s)
    case None
    with f have f': "for_msg lib cfg (page_value (json res)) st = (None, st1)" by simp
    have "accounted cfg st st1" using accounted_for_msg [OF f] .
    moreover have "accounted cfg st1 (save_if_many cfg st1)" by (rule accounted_save_if_many)
    moreover have "accounted cfg (save_if_many cfg st1) st'"
      using tail_same [OF assms False f'] by (intro accounted_same) simp_all
    ultimately show ?thesis by (blast intro: accounted_trans)
  next
    case (Some x)
    with assms False f have "st' = st1" by (simp add: loop_body_def)
    then show ?thesis using accounted_for_msg [OF f] by simp
  qed
qed

lemma accounted_loop:
  "loop lib cfg server st = Some (r, st', rest) \<Longrightarrow> accounted cfg st st'"
proof (induction server arbitrary: st)
  case Nil
  then show ?case by simp
next
  case (Cons res server)
  obtain x st1 where b: "loop_body lib cfg res st = (x, st1)"
    by (cases "loop_body lib cfg res st")
  have a1: "accounted cfg st st1" using accounted_loop_body [OF b] .
  show ?case
  proof (cases x)
    case None
    with Cons.prems b have "loop lib cfg server st1 = Some (r, st', rest)" by simp
    from Cons.IH [OF this] a1 show ?thesis by (blast intro: accounted_trans)
  next
    case (Some y)
    with Cons.prems b have "st' = st1" by simp
    with a1 show ?thesis by simp
  qed
qed

lemma loop_body_no_max:
  "max_messages cfg = None \<or> max_messages cfg = Some 0 \<Longrightarrow>
     fst (loop_body lib cfg res st) \<noteq> Some (Inr MaxReached)"
  using for_msg_no_max [of cfg lib "page_value (json res)" st]
  by (auto simp: loop_body_def Let_def split: prod.splits option.splits sum.splits if_splits)

lemma loop_no_max:
  "max_messages cfg = None \<or> max_messages cfg = Some 0 \<Longrightarrow>
     loop lib cfg server st \<noteq> Some (Inr MaxReached, st', rest)"
proof (induction server arbitrary: st)
  case Nil
  then show ?case by simp
next
  case (Cons res server)
  then show ?case
    using loop_body_no_max [of cfg lib res st]
    by (auto split: prod.splits option.splits)
qed

lemma loop_body_http:
  "loop_body lib cfg res st = (Some (Inl (HTTPError c)), st') \<Longrightarrow>
     status_code res = c \<and> 400 \<le> c \<and> c < 600 \<and> st' = st"
  by (auto simp: loop_body_def Let_def input_def
      split: prod.splits option.splits sum.splits if_splits list.splits)

lemma loop_http:
  "loop lib cfg server st = Some (Inl (HTTPError c), st', rest) \<Longrightarrow>
     \<exists>res \<in> set server. status_code res = c \<and> 400 \<le> c \<and> c < 600"
proof (induction server arbitrary: st)
  case Nil
  then show ?case by simp
next
  case (Cons res server)
  then show ?case
    using loop_body_http [of lib cfg res st c]
    by (auto split: prod.splits option.splits)
qed

subsection \<open>Runs that reach the message limit\<close>

lemma candidates_Nil: "candidates lib cfg [] = []"
  by (simp add: candidates_def)

lemma candidates_Cons:
  "candidates lib cfg (msg # rs) =
     (case candidate lib cfg msg of None \<Rightarrow> candidates lib cfg rs
      | Some m \<Rightarrow> m # candidates lib cfg rs)"
  by (cases "candidate lib cfg msg") (simp_all add: candidates_def)

lemma for_msg_passes:
  "candidate lib cfg msg = None \<Longrightarrow> \<not> stopper lib cfg msg \<Longrightarrow>
     for_msg lib cfg (msg # rs) st = for_msg lib cfg rs st"
  by (auto simp: candidate_def stopper_def split: option.splits sum.splits bool.splits if_splits)

lemma for_msg_accepts:
  "candidate lib cfg msg = Some m \<Longrightarrow>
     for_msg lib cfg (msg # rs) st =
       (if max_reached (max_messages cfg) (tot_msg st + 1)
        then (Some MaxReached, st\<lparr>messages := messages st @ [m], tot_msg := tot_msg st + 1\<rparr>)
        else for_msg lib cfg rs (st\<lparr>messages := messages st @ [m], tot_msg := tot_msg st + 1\<rparr>))"
  by (auto simp: candidate_def Let_def split: option.splits sum.splits bool.splits if_splits)

lemma for_msg_below:
  assumes "max_messages cfg = Some n"
  shows "\<forall>msg \<in> set rs. \<not> stopper lib cfg msg \<Longrightarrow>
     tot_msg st + int (length (candidates lib cfg rs)) < n \<Longrightarrow>
     for_msg lib cfg rs st = (r, st1) \<Longrightarrow>
     r = None \<and> messages st1 = messages st @ candidates lib cfg rs \<and>
     tot_msg st1 = tot_msg st + int (length (candidates lib cfg rs))"
proof (induction rs arbitrary: st)
  case Nil
  then show ?case by (simp add: candidates_Nil)
next
  case (Cons msg rs)
  from Cons.prems(1) have ns: "\<not> stopper lib cfg msg"
    and rest: "\<forall>msg \<in> set rs. \<not> stopper lib cfg msg" by simp_all
  show ?case
  proof (cases "candidate lib cfg msg")
    case None
    then have "for_msg lib cfg (msg # rs) st = for_msg lib cfg rs st"
      using ns by (rule for_msg_passes)
    with Cons.prems Cons.IH [OF rest, of st] None show ?thesis by (simp add: candidates_Cons)
  next
    case (Some m)
    let ?st = "st\<lparr>messages := messages st @ [m], tot_msg := tot_msg st + 1\<rparr>"
    from Some Cons.prems(2) have "\<not> max_reached (max_messages cfg) (tot_msg st + 1)"
      using assms by (simp add: max_reached_def candidates_Cons)
    with Some have "for_msg lib cfg (msg # rs) st = for_msg lib cfg rs ?st"
      by (simp add: for_msg_accepts del: for_msg.simps)
    with Cons.prems Cons.IH [OF rest, of ?st] Some show ?thesis by (simp add: candidates_Cons)
  qed
qed

lemma before_cutoff_Cons:
  "before_cutoff lib cfg (msg # rs) =
     (if stopper lib cfg msg then [] else msg # before_cutoff lib cfg rs)"
  by (simp add: before_cutoff_def)

lemma for_msg_hit:
  assumes "max_messages cfg = Some n" and "0 < n"
  shows "tot_msg st < n \<Longrightarrow>
     n \<le> tot_msg st + int (length (candidates lib cfg (before_cutoff lib cfg rs))) \<Longrightarrow>
     for_msg lib cfg rs st = (r, st1) \<Longrightarrow>
     r = Some MaxReached \<and>
     messages st1 = messages st @ take (nat (n - tot_msg st)) (candidates lib cfg rs) \<and>
     tot_msg st1 = n"
proof (induction rs arbitrary: st)
  case Nil
  then show ?case by (simp add: candidates_Nil before_cutoff_def)
next
  case (Cons msg rs)
  have ns: "\<not> stopper lib cfg msg"
  proof
    assume "stopper lib cfg msg"
    then have "before_cutoff lib cfg (msg # rs) = []" by (simp add: before_cutoff_Cons)
    with Cons.prems(1,2) show False by (simp add: candidates_Nil)
  qed
  then have bc: "before_cutoff lib cfg (msg # rs) = msg # before_cutoff lib cfg rs"
    by (simp add: before_cutoff_Cons)
  show ?case
  proof (cases "candidate lib cfg msg")
    case None
    then have "for_msg lib cfg (msg # rs) st = for_msg lib cfg rs st"
      using ns by (rule for_msg_passes)
    with Cons.prems Cons.IH [of st] None bc show ?thesis by (simp add: candidates_Cons)
  next
    case (Some m)
    let ?st = "st\<lparr>messages := messages st @ [m], tot_msg := tot_msg st + 1\<rparr>"
    have c: "candidates lib cfg (msg # rs) = m # candidates lib cfg rs"
      using Some by (simp add: candidates_Cons)
    have cb: "candidates lib cfg (before_cutoff lib cfg (msg # rs)) =
        m # candidates lib cfg (before_cutoff lib cfg rs)"
      using Some bc by (simp add: candidates_Cons)
    show ?thesis
    proof (cases "tot_msg st + 1 = n")
      case True
      then have "max_reached (max_messages cfg) (tot_msg st + 1)"
        using assms by (simp add: max_reached_def)
      with Some have "for_msg lib cfg (msg # rs) st = (Some MaxReached, ?st)"
        by (simp add: for_msg_accepts del: for_msg.simps)
      moreover from True have "nat (n - tot_msg st) = 1" by simp
      ultimately show ?thesis using Cons.prems(3) True c by auto
    next
      case False
      with Cons.prems(1) have lt: "tot_msg st + 1 < n" by simp
      then have "\<not> max_reached (max_messages cfg) (tot_msg st + 1)"
        using assms by (simp add: max_reached_def)
      with Some have "for_msg lib cfg (msg # rs) st = for_msg lib cfg rs ?st"
        by (simp add: for_msg_accepts del: for_msg.simps)
      with Cons.prems(3) have f: "for_msg lib cfg rs ?st = (r, st1)" by simp
      have "nat (n - tot_msg st) = Suc (nat (n - tot_msg ?st))" using lt by simp
      then have "take (nat (n - tot_msg st)) (candidates lib cfg (msg # rs)) =
           m # take (nat (n - tot_msg ?st)) (candidates lib cfg rs)"
        using c by simp
      moreover have "r = Some MaxReached \<and>
          messages st1 = messages ?st @ take (nat (n - tot_msg ?st)) (candidates lib cfg rs) \<and>
          tot_msg st1 = n"
        using Cons.IH [of ?st, OF _ _ f] lt Cons.prems(2) cb by simp
      ultimately show ?thesis by simp
    qed
  qed
qed

lemma stream_candidates_Cons:
  "stream_candidates lib cfg (res # server) =
     candidates lib cfg (page_value (json res)) @ stream_candidates lib cfg server"
  by (simp add: stream_candidates_def)

lemma stream_candidates_single:
  "stream_candidates lib cfg [res] = candidates lib cfg (page_value (json res))"
  by (simp add: stream_candidates_def)

lemma save_if_many_tot: "tot_msg (save_if_many cfg st) = tot_msg st"
  by (simp add: save_if_many_def)

lemma save_if_many_cases:
  "(messages (save_if_many cfg st) = messages st \<and> chats_folder (save_if_many cfg st) = chats_folder st) \<or>
   (messages (save_if_many cfg st) = [] \<and>
    chats_folder (save_if_many cfg st) = save_msg (messages st) (chat_name (chat cfg)) (chats_folder st))"
  by (simp add: save_if_many_def)

lemma loop_body_goes_on:
  assumes "\<not> (400 \<le> status_code res \<and> status_code res < 600)"
    and "truthy (nextLink (json res))"
    and "for_msg lib cfg (page_value (json res)) st = (None, st1)"
    and "0 < ask_continue cfg \<and> since_confirm st = ask_continue cfg \<longrightarrow>
           (\<exists>x xs. stdin st = x # xs \<and> \<not> answers x ''n'')"
  shows "\<exists>stn. loop_body lib cfg res st = (None, stn) \<and>
     messages stn = messages (save_if_many cfg st1) \<and> tot_msg stn = tot_msg st1 \<and>
     chats_folder stn = chats_folder (save_if_many cfg st1) \<and>
     since_confirm stn =
       (if 0 < ask_continue cfg \<and> since_confirm st = ask_continue cfg then 1
        else since_confirm st + 1) \<and>
     stdin stn =
       (if 0 < ask_continue cfg \<and> since_confirm st = ask_continue cfg then tl (stdin st)
        else stdin st)"
proof -
  have fr: "since_confirm st1 = since_confirm st" "stdin st1 = stdin st"
    using for_msg_frame [OF assms(3)] by simp_all
  show ?thesis
  proof (cases "0 < ask_continue cfg \<and> since_confirm st = ask_continue cfg")
    case True
    with assms(4) obtain x xs where x: "stdin st = x # xs" "\<not> answers x ''n''" by blast
    with True assms(1,2,3) fr show ?thesis
      by (simp add: loop_body_def Let_def update_temp_file_def next_page_def input_def
          save_if_many_def)
  next
    case False
    with assms(1,2,3) fr show ?thesis
      by (auto simp: loop_body_def Let_def update_temp_file_def next_page_def save_if_many_def)
  qed
qed

lemma div_asked: "0 < (a::int) \<Longrightarrow> (a - 1 + int (Suc n)) div a = 1 + int n div a"
proof -
  assume pos: "0 < a"
  have "a - 1 + int (Suc n) = a + int n" by simp
  then have "(a - 1 + int (Suc n)) div a = (a + int n) div a" by (rule arg_cong)
  also have "(a + int n) div a = 1 + int n div a"
    using pos by (metis div_add_self1 add.commute less_irrefl)
  finally show ?thesis .
qed
lemma prompts_asked: "0 < a \<Longrightarrow> prompts a a (Suc n) = Suc (prompts a 1 n)"
proof -
  assume pos: "0 < a"
  have nn: "0 \<le> int n div a" using pos by (simp add: pos_imp_zdiv_nonneg_iff)
  have "prompts a a (Suc n) = nat (1 + int n div a)"
    using pos div_asked [OF pos, of n] by (simp only: prompts_def if_True)
  also have "\<dots> = Suc (nat (int n div a))" using nn by simp
  also have "\<dots> = Suc (prompts a 1 n)" using pos by (simp add: prompts_def)
  finally show ?thesis .
qed
lemma prompts_waits: "prompts a sc (Suc n) = prompts a (sc + 1) n"
  by (simp add: prompts_def algebra_simps)

lemma loop_hits_max:
  assumes "max_messages cfg = Some n" and "0 < n"
    and "\<not> (400 \<le> status_code res \<and> status_code res < 600)"
  shows "(\<forall>r \<in> set pre. \<not> (400 \<le> status_code r \<and> status_code r < 600) \<and>
        truthy (nextLink (json r)) \<and> (\<forall>msg \<in> set (page_value (json r)). \<not> stopper lib cfg msg)) \<Longrightarrow>
     (0 < ask_continue cfg \<longrightarrow> 1 \<le> since_confirm st \<and> since_confirm st \<le> ask_continue cfg) \<Longrightarrow>
     prompts (ask_continue cfg) (since_confirm st) (length pre) \<le> length (stdin st) \<Longrightarrow>
     (\<forall>x \<in> set (take (prompts (ask_continue cfg) (since_confirm st) (length pre)) (stdin st)).
        \<not> answers x ''n'') \<Longrightarrow>
     tot_msg st + int (length (stream_candidates lib cfg pre)) < n \<Longrightarrow>
     n \<le> tot_msg st + int (length (stream_candidates lib cfg pre)) +
           int (length (candidates lib cfg (before_cutoff lib cfg (page_value (json res))))) \<Longrightarrow>
     \<exists>st' flushed. loop lib cfg (pre @ res # post) st = Some (Inr MaxReached, st', post) \<and>
        tot_msg st' = n \<and>
        concat flushed @ messages st' =
          messages st @ take (nat (n - tot_msg st)) (stream_candidates lib cfg (pre @ [res])) \<and>
        chats_folder st' = flushes flushed (chat_name (chat cfg)) (chats_folder st)"
proof (induction pre arbitrary: st)
  case Nil
  obtain r st1 where f: "for_msg lib cfg (page_value (json res)) st = (r, st1)"
    by (cases "for_msg lib cfg (page_value (json res)) st")
  from Nil have lt: "tot_msg st < n"
    and ge: "n \<le> tot_msg st +
        int (length (candidates lib cfg (before_cutoff lib cfg (page_value (json res)))))"
    by (simp_all add: stream_candidates_def)
  from for_msg_hit [OF assms(1,2) lt ge f]
  have h: "r = Some MaxReached"
    "messages st1 = messages st @ take (nat (n - tot_msg st)) (candidates lib cfg (page_value (json res)))"
    "tot_msg st1 = n" by simp_all
  have "loop lib cfg ([] @ res # post) st = Some (Inr MaxReached, st1, post)"
    using f h(1) assms(3) by (simp add: loop_body_def)
  moreover have "chats_folder st1 = chats_folder st" using for_msg_frame [OF f] by simp
  ultimately show ?case using h
    by (intro exI [of _ st1] exI [of _ "[]"]) (simp add: stream_candidates_single flushes_Nil)
next
  case (Cons r pre)
  let ?a = "ask_continue cfg"
  let ?c = "candidates lib cfg (page_value (json r))"
  let ?asked = "0 < ?a \<and> since_confirm st = ?a"
  from Cons.prems(1) have ok: "\<not> (400 \<le> status_code r \<and> status_code r < 600)"
    and link: "truthy (nextLink (json r))"
    and ns: "\<forall>msg \<in> set (page_value (json r)). \<not> stopper lib cfg msg" by simp_all
  obtain x st1 where f: "for_msg lib cfg (page_value (json r)) st = (x, st1)"
    by (cases "for_msg lib cfg (page_value (json r)) st")
  from Cons.prems(5) have below: "tot_msg st + int (length ?c) < n"
    by (simp add: stream_candidates_Cons)
  from for_msg_below [OF assms(1) ns below f]
  have h: "x = None" "messages st1 = messages st @ ?c" "tot_msg st1 = tot_msg st + int (length ?c)"
    by simp_all
  from f h(1) have f': "for_msg lib cfg (page_value (json r)) st = (None, st1)" by simp
  have answer: "?asked \<longrightarrow> (\<exists>x xs. stdin st = x # xs \<and> \<not> answers x ''n'')"
  proof
    assume asked: ?asked
    then have p: "prompts ?a (since_confirm st) (length (r # pre)) = Suc (prompts ?a 1 (length pre))"
      using prompts_asked [of ?a "length pre"] by simp
    with Cons.prems(3) obtain y ys where s: "stdin st = y # ys" by (cases "stdin st") auto
    with p Cons.prems(4) have "\<not> answers y ''n''" by simp
    with s show "\<exists>x xs. stdin st = x # xs \<and> \<not> answers x ''n''" by blast
  qed
  from loop_body_goes_on [OF ok link f' answer] obtain stn where
    body: "loop_body lib cfg r st = (None, stn)"
    and mn: "messages stn = messages (save_if_many cfg st1)"
    and tn: "tot_msg stn = tot_msg st1"
    and fn: "chats_folder stn = chats_folder (save_if_many cfg st1)"
    and sn: "since_confirm stn = (if ?asked then 1 else since_confirm st + 1)"
    and inn: "stdin stn = (if ?asked then tl (stdin st) else stdin st)"
    by blast
  have tot: "tot_msg stn = tot_msg st + int (length ?c)" using tn h(3) by simp
  have p1: "\<forall>r \<in> set pre. \<not> (400 \<le> status_code r \<and> status_code r < 600) \<and>
      truthy (nextLink (json r)) \<and> (\<forall>msg \<in> set (page_value (json r)). \<not> stopper lib cfg msg)"
    using Cons.prems(1) by simp
  have p2: "0 < ?a \<longrightarrow> 1 \<le> since_confirm stn \<and> since_confirm stn \<le> ?a"
    using Cons.prems(2) sn by auto
  have p34: "prompts ?a (since_confirm stn) (length pre) \<le> length (stdin stn) \<and>
      (\<forall>x \<in> set (take (prompts ?a (since_confirm stn) (length pre)) (stdin stn)). \<not> answers x ''n'')"
  proof (cases ?asked)
    case True
    then have p: "prompts ?a (since_confirm st) (length (r # pre)) = Suc (prompts ?a 1 (length pre))"
      using prompts_asked [of ?a "length pre"] by simp
    from answer True obtain y ys where s: "stdin st = y # ys" by blast
    from True sn inn s have "since_confirm stn = 1" "stdin stn = ys" by simp_all
    with p s Cons.prems(3,4) show ?thesis by simp
  next
    case False
    then have "since_confirm stn = since_confirm st + 1" "stdin stn = stdin st"
      using sn inn by auto
    moreover have "prompts ?a (since_confirm st) (length (r # pre)) =
        prompts ?a (since_confirm st + 1) (length pre)"
      using prompts_waits [of ?a "since_confirm st" "length pre"] by simp
    ultimately show ?thesis using Cons.prems(3,4) by simp
  qed
  have p5: "tot_msg stn + int (length (stream_candidates lib cfg pre)) < n"
    using Cons.prems(5) tot by (simp add: stream_candidates_Cons)
  have p6: "n \<le> tot_msg stn + int (length (stream_candidates lib cfg pre)) +
      int (length (candidates lib cfg (before_cutoff lib cfg (page_value (json res)))))"
    using Cons.prems(6) tot by (simp add: stream_candidates_Cons)
  from Cons.IH [OF p1 p2 conjunct1 [OF p34] conjunct2 [OF p34] p5 p6] obtain st' flushed where
    ih: "loop lib cfg (pre @ res # post) stn = Some (Inr MaxReached, st', post)"
      "tot_msg st' = n"
      "concat flushed @ messages st' =
         messages stn @ take (nat (n - tot_msg stn)) (stream_candidates lib cfg (pre @ [res]))"
      "chats_folder st' = flushes flushed (chat_name (chat cfg)) (chats_folder stn)"
    by blast
  have run: "loop lib cfg ((r # pre) @ res # post) st = Some (Inr MaxReached, st', post)"
    using body ih(1) by simp
  have tk: "take (nat (n - tot_msg st)) (stream_candidates lib cfg ((r # pre) @ [res])) =
      ?c @ take (nat (n - tot_msg stn)) (stream_candidates lib cfg (pre @ [res]))"
  proof -
    have "nat (n - tot_msg st) - length ?c = nat (n - tot_msg stn)" using tot below by simp
    moreover have "length ?c \<le> nat (n - tot_msg st)" using below by simp
    ultimately show ?thesis by (simp add: stream_candidates_Cons)
  qed
  from save_if_many_cases [of cfg st1] show ?case
  proof
    assume same: "messages (save_if_many cfg st1) = messages st1 \<and>
      chats_folder (save_if_many cfg st1) = chats_folder st1"
    have "concat flushed @ messages st' =
        messages st @ take (nat (n - tot_msg st)) (stream_candidates lib cfg ((r # pre) @ [res]))"
      using ih(3) same h(2) tk mn by simp
    moreover have "chats_folder st' = flushes flushed (chat_name (chat cfg)) (chats_folder st)"
      using ih(4) same fn for_msg_frame [OF f] by simp
    ultimately show ?thesis using run ih(2) by blast
  next
    assume flushed: "messages (save_if_many cfg st1) = [] \<and>
      chats_folder (save_if_many cfg st1) =
        save_msg (messages st1) (chat_name (chat cfg)) (chats_folder st1)"
    have "concat (messages st1 # flushed) @ messages st' =
        messages st @ take (nat (n - tot_msg st)) (stream_candidates lib cfg ((r # pre) @ [res]))"
      using ih(3) flushed h(2) tk mn by simp
    moreover have "chats_folder st' =
        flushes (messages st1 # flushed) (chat_name (chat cfg)) (chats_folder st)"
      using ih(4) flushed fn for_msg_frame [OF f] by (simp add: flushes_def)
    ultimately show ?thesis using run ih(2) by blast
  qed
qed

subsection \<open>Checkpoints\<close>

lemma for_msg_stop: "for_msg lib cfg rs st = (Some s, st1) \<Longrightarrow> s = MaxReached \<or> s = OldestReached"
proof (induction rs arbitrary: st)
  case Nil
  then show ?case by simp
next
  case (Cons msg rs)
  show ?case
    using Cons.prems Cons.IH [of st]
      Cons.IH [of "st\<lparr>messages := messages st @ [m], tot_msg := tot_msg st + 1\<rparr>" for m]
    by (auto simp: Let_def split: option.splits sum.splits bool.splits if_splits)
qed

lemma checkpoint_written:
  assumes "\<not> (400 \<le> status_code res \<and> status_code res < 600)"
    and "for_msg lib cfg (page_value (json res)) st = (None, st1)"
  shows "chat_progress (read_temp_file (snd (loop_body lib cfg res st))) (chat_id (chat cfg)) =
     Some \<lparr>next_url = nextLink (json res), num = num_requests st\<rparr>"
proof -
  have n: "num_requests (save_if_many cfg st1) = num_requests st"
    using for_msg_frame [OF assms(2)] by (simp add: save_if_many_def)
  show ?thesis
    using assms n
    by (auto simp: loop_body_def Let_def update_temp_file_def next_page_def input_def read_temp_file_def
      split: if_splits sum.splits list.splits prod.splits)
qed

lemma checkpoint_missed:
  assumes "\<not> (400 \<le> status_code res \<and> status_code res < 600)"
    and "for_msg lib cfg (page_value (json res)) st = (Some s, st1)"
  shows "loop_body lib cfg res st = (Some (Inr s), st1) \<and> temp_file st1 = temp_file st"
  using assms for_msg_frame [OF assms(2)] by (simp add: loop_body_def)

subsection \<open>Texts, entries and archives\<close>

lemmas string_defs = rstrip_def lstrip_def strip_def keep_char_def isalpha_def isdigit_def
  isspace_def lower_def lower_char_def startswith_def

lemmas writer_defs = save_msg_def archive_def read_existing_def write_text_def os_linesep_def
  to_filename_def add_lines_def
  add_line_def skipped_def line_def str_list_def new_entries_def flushes_def first_line_def

lemma join_Cons: "join sep (x # xs) = x @ (if xs = [] then [] else sep @ join sep xs)"
  by (cases xs) simp_all

lemma in_join: "x \<in> set xs \<Longrightarrow> sublist x (join sep xs)"
proof (induction xs)
  case Nil
  then show ?case by simp
next
  case (Cons y ys)
  show ?case
  proof (cases "x = y")
    case True
    have "join sep (y # ys) = [] @ x @ (if ys = [] then [] else sep @ join sep ys)"
      using True by (simp add: join_Cons)
    then show ?thesis unfolding sublist_def by blast
  next
    case False
    with Cons.prems have mem: "x \<in> set ys" by simp
    then have ne: "ys \<noteq> []" by auto
    from Cons.IH [OF mem] obtain ps ss where "join sep ys = ps @ x @ ss"
      unfolding sublist_def by blast
    then have "join sep (y # ys) = (y @ sep @ ps) @ x @ ss"
      using ne by (simp add: join_Cons)
    then show ?thesis unfolding sublist_def by blast
  qed
qed

lemma archive_save_nonempty: "archive (save_msg ms t fs) t \<noteq> []"
  by (simp add: archive_save_msg)

lemma archive_flushes_snoc:
  "archive (flushes (bs @ [b]) t fs) t =
     join ''\<newline>\<newline>'' ((if archive (flushes bs t fs) t = [] then [''## '' @ t] else []) @ new_entries b)
       @ ''\<newline>\<newline>'' @ universal_newlines (archive (flushes bs t fs) t)"
  by (simp only: flushes_snoc archive_save_msg)

lemma archive_flushes_nonempty: "bs \<noteq> [] \<Longrightarrow> archive (flushes bs t fs) t \<noteq> []"
  by (cases bs rule: rev_cases) (simp_all add: flushes_snoc archive_save_nonempty)

lemma archive_flushes_Cons:
  "archive (flushes (b # bs) t fs) t =
     foldl (\<lambda>doc x. join ''\<newline>\<newline>'' (new_entries x) @ ''\<newline>\<newline>'' @ universal_newlines doc)
       (archive (save_msg b t fs) t) bs"
proof (induction bs rule: rev_induct)
  case Nil
  then show ?case by (simp add: flushes_single)
next
  case (snoc x xs)
  have ne: "archive (flushes (b # xs) t fs) t \<noteq> []"
    by (rule archive_flushes_nonempty) simp
  have "archive (flushes ((b # xs) @ [x]) t fs) t =
      join ''\<newline>\<newline>'' (new_entries x) @ ''\<newline>\<newline>'' @
        universal_newlines (archive (flushes (b # xs) t fs) t)"
    using ne by (simp only: archive_flushes_snoc) simp
  then show ?case using snoc by simp
qed

lemma entry_in_new_entries: "m \<in> set ms \<Longrightarrow> \<not> skipped m \<Longrightarrow> line m \<in> set (new_entries ms)"
  by (simp add: new_entries_eq)

lemma entry_in_archive:
  assumes "m \<in> set ms" and "\<not> skipped m"
  shows "sublist (line m) (archive (save_msg ms t fs) t)"
proof -
  let ?ls = "(if archive fs t = [] then [''## '' @ t] else []) @ new_entries ms"
  have "line m \<in> set ?ls" using entry_in_new_entries [OF assms] by simp
  then have "sublist (line m) (join ''\<newline>\<newline>'' ?ls)" by (rule in_join)
  then have "sublist (line m)
      (join ''\<newline>\<newline>'' ?ls @ (''\<newline>\<newline>'' @ universal_newlines (archive fs t)))"
    by (simp add: sublist_append)
  then show ?thesis by (simp only: archive_save_msg)
qed

lemma rstrip_parts:
  "\<exists>ws. s = rstrip s @ ws \<and> (\<forall>c \<in> set ws. isspace c)"
proof -
  have "rev s = takeWhile isspace (rev s) @ dropWhile isspace (rev s)" by simp
  then have "rev (rev s) = rev (takeWhile isspace (rev s) @ dropWhile isspace (rev s))"
    by (rule arg_cong)
  then have "s = rstrip s @ rev (takeWhile isspace (rev s))"
    by (simp only: rev_rev_ident rev_append rstrip_def)
  moreover have "\<forall>c \<in> set (rev (takeWhile isspace (rev s))). isspace c"
    by (auto dest: set_takeWhileD)
  ultimately show ?thesis by blast
qed

lemma rstrip_last: "rstrip s \<noteq> [] \<Longrightarrow> \<not> isspace (last (rstrip s))"
proof -
  assume "rstrip s \<noteq> []"
  then have ne: "dropWhile isspace (rev s) \<noteq> []" by (simp add: rstrip_def)
  then have "\<not> isspace (hd (dropWhile isspace (rev s)))" by (rule hd_dropWhile)
  moreover have "last (rstrip s) = hd (dropWhile isspace (rev s))"
    using ne by (simp add: rstrip_def last_rev)
  ultimately show ?thesis by simp
qed

lemma first_line_heading:
  assumes "CHR ''\<newline>'' \<notin> set h"
  shows "first_line (h @ CHR ''\<newline>'' # rest) = h"
proof -
  have "takeWhile (\<lambda>c. c \<noteq> CHR ''\<newline>'') (h @ CHR ''\<newline>'' # rest) =
      h @ takeWhile (\<lambda>c. c \<noteq> CHR ''\<newline>'') (CHR ''\<newline>'' # rest)"
    using assms by (intro takeWhile_append2) auto
  then show ?thesis by (simp add: first_line_def)
qed

subsection \<open>The start and the end of a download\<close>

lemmas run_defs = download_chat_def resume_def settings_def fresh_def ok_page_def plain_def
  failed_def read_temp_file_def start_def loop_body_def too_old_def to_message_def
  max_reached_def save_rest_def save_if_many_def SAVE_EVERY_def update_temp_file_def
  next_page_def truthy_def input_def answers_def Let_def

lemmas date_defs = load_date_def basic_lib_def basic_datetime_def make_date_def digit_def
  days_in_month_def date_less_def

lemma resume_frame:
  "resume cfg st = Proceed st0 \<Longrightarrow>
     chats_folder st0 = chats_folder st \<and> temp_file st0 = temp_file st"
  by (auto simp: resume_def Let_def input_def
      split: option.splits if_splits sum.splits list.splits prod.splits)

lemma resume_error: "resume cfg st = Raise e st1 \<Longrightarrow> e = EOFError"
  by (auto simp: resume_def Let_def input_def
      split: option.splits if_splits sum.splits list.splits prod.splits)

lemma date_less_irrefl: "\<not> date_less d d"
  by (simp add: date_less_def)

lemma save_rest_frame:
  "tot_msg (save_rest cfg st) = tot_msg st \<and> messages (save_rest cfg st) = messages st \<and>
   temp_file (save_rest cfg st) = temp_file st"
  by (simp add: save_rest_def)

lemma save_rest_folder:
  "chats_folder (save_rest cfg st) =
     flushes (if messages st = [] then [] else [messages st]) (chat_name (chat cfg)) (chats_folder st)"
  by (simp add: save_rest_def flushes_def)

lemma for_msg_zero:
  "for_msg lib (cfg\<lparr>max_messages := Some 0\<rparr>) rs st = for_msg lib (cfg\<lparr>max_messages := None\<rparr>) rs st"
  by (induction rs arbitrary: st)
     (auto simp: Let_def max_reached_def split: option.splits sum.splits bool.splits)

lemma save_if_many_cfg: "save_if_many (cfg\<lparr>max_messages := m\<rparr>) st = save_if_many cfg st"
  by (simp add: save_if_many_def)

lemma update_temp_file_cfg:
  "update_temp_file (cfg\<lparr>max_messages := m\<rparr>) nxt st = update_temp_file cfg nxt st"
  by (simp add: update_temp_file_def)

lemma loop_body_zero:
  "loop_body lib (cfg\<lparr>max_messages := Some 0\<rparr>) res st =
   loop_body lib (cfg\<lparr>max_messages := None\<rparr>) res st"
  by (simp add: loop_body_def for_msg_zero save_if_many_cfg update_temp_file_cfg Let_def
      split: prod.splits option.splits)

lemma loop_zero:
  "loop lib (cfg\<lparr>max_messages := Some 0\<rparr>) server st = loop lib (cfg\<lparr>max_messages := None\<rparr>) server st"
  by (induction server arbitrary: st) (simp_all add: loop_body_zero split: prod.splits option.splits)

lemma config_zero:
  "max_messages cfg = Some 0 \<Longrightarrow> cfg\<lparr>max_messages := Some 0\<rparr> = cfg"
  "max_messages cfg = None \<Longrightarrow> cfg\<lparr>max_messages := None\<rparr> = cfg"
  by simp_all

subsection \<open>Evaluation of the candidates\<close>

lemmas cand_defs = stream_candidates_def candidates_def candidate_def stopper_def
  before_cutoff_def too_old_def to_message_def plain_def ok_page_def settings_def

lemma loop_raises:
  "loop lib cfg pre st = None \<Longrightarrow> 400 \<le> status_code res \<and> status_code res < 600 \<Longrightarrow>
     \<exists>st'. loop lib cfg (pre @ res # server) st =
        Some (Inl (HTTPError (status_code res)), st', server)"
proof (induction pre arbitrary: st)
  case Nil
  then show ?case by (simp add: loop_body_def)
next
  case (Cons r pre)
  obtain x st1 where b: "loop_body lib cfg r st = (x, st1)"
    by (cases "loop_body lib cfg r st")
  with Cons.prems(1) have "x = None" and "loop lib cfg pre st1 = None"
    by (auto split: option.splits)
  with Cons.IH [OF _ Cons.prems(2), of st1] b show ?case by simp
qed

section \<open>The claims\<close>

text \<open>
  Claim C1, as stated, fails: with a limit of one message, the first page holds one
  message and names a next page; the loop returns on the limit from inside the page,
  and no checkpoint has been written when \<open>download_chat\<close> ends.
\<close>

theorem checkpoint_cutoff_counterexample:
  "map_option (\<lambda>(r, st). (r, tot_msg st, temp_file st))
     (download_chat basic_lib (settings (Some 1) None 0)
        [ok_page [plain ''Al'' ''hi'' ''t1''] (Some ''u2'')] fresh) =
   Some (Inr (Done MaxReached), 1, None)"
  by (simp add: run_defs)

text \<open>
  Claim C1, amended. On a page that is read to its end without a cutoff, the checkpoint
  with the page's next link and the current request count is in the temp file when the
  iteration ends, whatever it ends with: the end of the pages, the user's refusal, an
  end of the console input, or the next request. When the message limit or the date
  cutoff returns from inside the page, the iteration ends there and the temp file is
  as it was before the page.
\<close>

theorem checkpoint_after_full_page:
  assumes "\<not> (400 \<le> status_code res \<and> status_code res < 600)"
  shows "(\<forall>st1. for_msg lib cfg (page_value (json res)) st = (None, st1) \<longrightarrow>
            chat_progress (read_temp_file (snd (loop_body lib cfg res st))) (chat_id (chat cfg)) =
              Some \<lparr>next_url = nextLink (json res), num = num_requests st\<rparr>) \<and>
         (\<forall>s st1. for_msg lib cfg (page_value (json res)) st = (Some s, st1) \<longrightarrow>
            (s = MaxReached \<or> s = OldestReached) \<and>
            loop_body lib cfg res st = (Some (Inr s), st1) \<and> temp_file st1 = temp_file st)"
  using checkpoint_written [OF assms] checkpoint_missed [OF assms] for_msg_stop by blast

text \<open>
  A page read to its end records its next link; a page cut by the limit records
  nothing.
\<close>

theorem checkpoint_after_full_page_witness:
  "chat_progress (read_temp_file (snd (loop_body basic_lib (settings None None 0)
       (ok_page [plain ''Al'' ''hi'' ''t1''] (Some ''u2'')) (start fresh)))) ''c1'' =
     Some \<lparr>next_url = Some ''u2'', num = 1\<rparr> \<and>
   temp_file (snd (loop_body basic_lib (settings (Some 1) None 0)
       (ok_page [plain ''Al'' ''hi'' ''t1''] (Some ''u2'')) (start fresh))) = None"
proof -
  let ?res = "ok_page [plain ''Al'' ''hi'' ''t1''] (Some ''u2'')"
  have ok: "\<not> (400 \<le> status_code ?res \<and> status_code ?res < 600)" by (simp add: ok_page_def)
  obtain x st1 where f: "for_msg basic_lib (settings None None 0) (page_value (json ?res)) (start fresh) = (x, st1)"
    by (cases "for_msg basic_lib (settings None None 0) (page_value (json ?res)) (start fresh)")
  then have "x = None" by (auto simp: run_defs)
  with f checkpoint_after_full_page [OF ok, of basic_lib "settings None None 0" "start fresh"]
  have "chat_progress (read_temp_file (snd (loop_body basic_lib (settings None None 0) ?res (start fresh))))
      (chat_id (chat (settings None None 0))) =
     Some \<lparr>next_url = nextLink (json ?res), num = num_requests (start fresh)\<rparr>" by blast
  then have a: "chat_progress (read_temp_file (snd (loop_body basic_lib (settings None None 0) ?res (start fresh)))) ''c1'' =
     Some \<lparr>next_url = Some ''u2'', num = 1\<rparr>"
    by (simp add: settings_def ok_page_def start_def)
  obtain y st2 where g: "for_msg basic_lib (settings (Some 1) None 0) (page_value (json ?res)) (start fresh) = (y, st2)"
    by (cases "for_msg basic_lib (settings (Some 1) None 0) (page_value (json ?res)) (start fresh)")
  then have "y = Some MaxReached" by (auto simp: run_defs)
  with g checkpoint_after_full_page [OF ok, of basic_lib "settings (Some 1) None 0" "start fresh"]
  have "loop_body basic_lib (settings (Some 1) None 0) ?res (start fresh) = (Some (Inr MaxReached), st2)
      \<and> temp_file st2 = temp_file (start fresh)" by blast
  then have b: "temp_file (snd (loop_body basic_lib (settings (Some 1) None 0) ?res (start fresh))) = None"
    by (simp add: start_def fresh_def)
  from a b show ?thesis by simp
qed

text \<open>
  Claim C2, as stated, fails: of a batch of two messages the writer puts the entry of
  the second before the entry of the first.
\<close>

theorem save_msg_order_counterexample:
  "new_entries [al, bo] \<noteq> map line (filter (\<lambda>m. \<not> skipped m) [al, bo]) \<and>
   archive (save_msg [al, bo] ''T'' Map.empty) ''T'' =
     ''## T\<newline>\<newline>##### Bo - t2\<newline>second\<newline>\<newline>##### Al - t1\<newline>first\<newline>\<newline>''"
  by (simp add: writer_defs string_defs al_def bo_def)

text \<open>
  Claim C2, amended. The entries that one call of the writer adds are those of the
  messages it does not skip, in the reverse of the order of the batch; they are written,
  after the title when the archive is new or empty, joined by blank lines and followed
  by a blank line and the previous content as the writer has read it.
\<close>

theorem save_msg_reverses_batch:
  "new_entries ms = rev (map line (filter (\<lambda>m. \<not> skipped m) ms)) \<and>
   archive (save_msg ms t fs) t =
     join ''\<newline>\<newline>'' ((if archive fs t = [] then [''## '' @ t] else []) @ new_entries ms)
       @ ''\<newline>\<newline>'' @ universal_newlines (archive fs t)"
  using new_entries_eq [of ms] archive_save_msg [of ms t fs] by simp

text \<open>
  The batch of two messages, written to a new archive.
\<close>

theorem save_msg_reverses_batch_witness:
  "new_entries [al, bo] = [line bo, line al] \<and>
   archive (save_msg [al, bo] ''T'' Map.empty) ''T'' =
     ''## T'' @ ''\<newline>\<newline>'' @ line bo @ ''\<newline>\<newline>'' @ line al @ ''\<newline>\<newline>''"
proof -
  have k: "\<not> skipped al" "\<not> skipped bo"
    by (simp_all add: skipped_def al_def bo_def string_defs)
  have e: "archive Map.empty ''T'' = []" by (simp add: archive_def)
  from save_msg_reverses_batch [of "[al, bo]" "''T''" Map.empty] k e show ?thesis by simp
qed

text \<open>
  Claim C3, as stated, fails: after two flushes to a new archive the first line is the
  header of an entry, and the title heading stands below the entry of the second
  flush.
\<close>

theorem title_first_line_counterexample:
  "first_line (archive (flushes [[al], [bo]] ''T'' Map.empty) ''T'') \<noteq> ''## T'' \<and>
   archive (flushes [[al], [bo]] ''T'' Map.empty) ''T'' =
     ''##### Bo - t2\<newline>second\<newline>\<newline>## T\<newline>\<newline>##### Al - t1\<newline>first\<newline>\<newline>''"
  by (simp add: writer_defs string_defs al_def bo_def)

text \<open>
  Claim C3, amended. A flush onto an archive that is absent or empty writes the title
  heading at the top, as the first line when the title has no line break, then a blank
  line and the entries of the batch. A flush onto a non-empty archive writes no title:
  it puts its entries and a blank line above the whole previous content, which it
  writes back as it has read it, that is unchanged when it holds no carriage return.
  So after a sequence of flushes each later flush has put its block above the archive
  that the flushes before it have left, the latest block at the top.
\<close>

theorem flush_prepends_block:
  "(archive fs t = [] \<longrightarrow>
      archive (save_msg ms t fs) t =
        ''## '' @ t @ (if new_entries ms = [] then [] else ''\<newline>\<newline>'' @ join ''\<newline>\<newline>'' (new_entries ms))
          @ ''\<newline>\<newline>'') \<and>
   (archive fs t = [] \<and> CHR ''\<newline>'' \<notin> set t \<longrightarrow>
      first_line (archive (save_msg ms t fs) t) = ''## '' @ t) \<and>
   (archive fs t \<noteq> [] \<longrightarrow>
      archive (save_msg ms t fs) t =
        join ''\<newline>\<newline>'' (new_entries ms) @ ''\<newline>\<newline>'' @ universal_newlines (archive fs t)) \<and>
   (CHR 0x0D \<notin> set (archive fs t) \<longrightarrow> universal_newlines (archive fs t) = archive fs t) \<and>
   archive (flushes (b # bs) t fs) t =
     foldl (\<lambda>doc x. join ''\<newline>\<newline>'' (new_entries x) @ ''\<newline>\<newline>'' @ universal_newlines doc)
       (archive (save_msg b t fs) t) bs"
proof -
  have d: "CHR 0x0D \<notin> set (archive fs t) \<longrightarrow> universal_newlines (archive fs t) = archive fs t"
    by (simp add: universal_newlines_same)
  have a: "archive fs t = [] \<longrightarrow>
      archive (save_msg ms t fs) t =
        ''## '' @ t @ (if new_entries ms = [] then [] else ''\<newline>\<newline>'' @ join ''\<newline>\<newline>'' (new_entries ms))
          @ ''\<newline>\<newline>''"
    by (simp add: archive_save_msg join_Cons)
  have b: "archive fs t = [] \<and> CHR ''\<newline>'' \<notin> set t \<longrightarrow>
      first_line (archive (save_msg ms t fs) t) = ''## '' @ t"
  proof
    assume h: "archive fs t = [] \<and> CHR ''\<newline>'' \<notin> set t"
    then have n: "CHR ''\<newline>'' \<notin> set (''## '' @ t)" by simp
    obtain rest where "archive (save_msg ms t fs) t = (''## '' @ t) @ CHR ''\<newline>'' # rest"
      using a h by (cases "new_entries ms = []") simp_all
    then show "first_line (archive (save_msg ms t fs) t) = ''## '' @ t"
      using first_line_heading [OF n] by simp
  qed
  have c: "archive fs t \<noteq> [] \<longrightarrow>
      archive (save_msg ms t fs) t =
        join ''\<newline>\<newline>'' (new_entries ms) @ ''\<newline>\<newline>'' @ universal_newlines (archive fs t)"
    by (simp add: archive_save_msg)
  from a b c d archive_flushes_Cons [of b bs t fs] show ?thesis by blast
qed

text \<open>
  A first flush leaves the title as first line; a second flush puts its entry above
  everything the first one wrote.
\<close>

theorem flush_prepends_block_witness:
  "first_line (archive (save_msg [al] ''T'' Map.empty) ''T'') = ''## T'' \<and>
   archive (flushes [[al], [bo]] ''T'' Map.empty) ''T'' =
     line bo @ ''\<newline>\<newline>'' @ archive (save_msg [al] ''T'' Map.empty) ''T''"
proof -
  have e: "archive Map.empty ''T'' = []" by (simp add: archive_def)
  have n: "new_entries [bo] = [line bo]" by (simp add: writer_defs string_defs bo_def)
  have nl: "CHR ''\<newline>'' \<notin> set ''T''" by simp
  have u: "universal_newlines (archive (save_msg [al] ''T'' Map.empty) ''T'') =
      archive (save_msg [al] ''T'' Map.empty) ''T''"
    by (simp add: writer_defs string_defs al_def)
  note inst = flush_prepends_block [of Map.empty "''T''" "[al]" "[al]" "[[bo]]"]
  from inst e nl
  have "first_line (archive (save_msg [al] ''T'' Map.empty) ''T'') = ''## '' @ ''T''"
    by blast
  moreover from inst have "archive (flushes [[al], [bo]] ''T'' Map.empty) ''T'' =
      foldl (\<lambda>doc x. join ''\<newline>\<newline>'' (new_entries x) @ ''\<newline>\<newline>'' @ universal_newlines doc)
        (archive (save_msg [al] ''T'' Map.empty) ''T'') [[bo]]"
    by blast
  ultimately show ?thesis using n u by simp
qed

text \<open>
  Claim C4, as stated, fails: a first flush stores a message whose body holds a carriage
  return before a line feed; the second flush reads the archive with universal newlines
  and writes it back without the carriage return, so that what the first flush had
  stored is not a suffix of the archive after the second.
\<close>

theorem prior_content_counterexample:
  "archive (save_msg [cy] ''T'' Map.empty) ''T'' =
     ''## T\<newline>\<newline>##### Cy - t0\<newline>a'' @ [CHR 0x0D] @ ''\<newline>b\<newline>\<newline>'' \<and>
   archive (save_msg [bo] ''T'' (save_msg [cy] ''T'' Map.empty)) ''T'' =
     ''##### Bo - t2\<newline>second\<newline>\<newline>## T\<newline>\<newline>##### Cy - t0\<newline>a\<newline>b\<newline>\<newline>'' \<and>
   \<not> suffix (archive (save_msg [cy] ''T'' Map.empty) ''T'')
       (archive (save_msg [bo] ''T'' (save_msg [cy] ''T'' Map.empty)) ''T'')"
proof -
  have a: "archive (save_msg [cy] ''T'' Map.empty) ''T'' =
     ''## T\<newline>\<newline>##### Cy - t0\<newline>a'' @ [CHR 0x0D] @ ''\<newline>b\<newline>\<newline>''"
    by (simp add: writer_defs string_defs cy_def)
  have b: "archive (save_msg [bo] ''T'' (save_msg [cy] ''T'' Map.empty)) ''T'' =
     ''##### Bo - t2\<newline>second\<newline>\<newline>## T\<newline>\<newline>##### Cy - t0\<newline>a\<newline>b\<newline>\<newline>''"
    by (simp add: writer_defs string_defs cy_def bo_def)
  have "\<not> suffix (archive (save_msg [cy] ''T'' Map.empty) ''T'')
       (archive (save_msg [bo] ''T'' (save_msg [cy] ''T'' Map.empty)) ''T'')"
    unfolding a b by (simp add: suffix_to_prefix)
  with a b show ?thesis by simp
qed

text \<open>
  Claim C4, amended. A flush onto a non-empty archive writes its entries and a blank
  line, followed by the previous content in full and in its order, as the writer has
  read it: with a line feed in the place of every carriage return and line feed, and of
  every carriage return alone. What the writer has read is a suffix of the new content,
  and so is the previous content itself when it holds no carriage return. No other
  file of the folder changes.
\<close>

theorem save_msg_keeps_existing:
  assumes "archive fs t \<noteq> []"
  shows "archive (save_msg ms t fs) t =
       join ''\<newline>\<newline>'' (new_entries ms) @ ''\<newline>\<newline>'' @ universal_newlines (archive fs t) \<and>
     suffix (universal_newlines (archive fs t)) (archive (save_msg ms t fs) t) \<and>
     (CHR 0x0D \<notin> set (archive fs t) \<longrightarrow> suffix (archive fs t) (archive (save_msg ms t fs) t)) \<and>
     (\<forall>f. f \<noteq> to_filename t \<longrightarrow> save_msg ms t fs f = fs f)"
proof -
  have e: "archive (save_msg ms t fs) t =
       join ''\<newline>\<newline>'' (new_entries ms) @ ''\<newline>\<newline>'' @ universal_newlines (archive fs t)"
    using assms by (simp add: archive_save_msg)
  then have s: "suffix (universal_newlines (archive fs t)) (archive (save_msg ms t fs) t)"
    by (metis append.assoc suffixI)
  then have "CHR 0x0D \<notin> set (archive fs t) \<longrightarrow>
      suffix (archive fs t) (archive (save_msg ms t fs) t)"
    using universal_newlines_same [of "archive fs t"] by auto
  with e s show ?thesis by (simp add: save_msg_other)
qed

text \<open>
  A flush onto an archive that holds a title and an old entry, without carriage
  return.
\<close>

theorem save_msg_keeps_existing_witness:
  "archive (save_msg [bo] ''T'' [''T.md'' \<mapsto> ''## T\<newline>\<newline>old\<newline>\<newline>'']) ''T'' =
     ''##### Bo - t2\<newline>second\<newline>\<newline>## T\<newline>\<newline>old\<newline>\<newline>'' \<and>
   suffix ''## T\<newline>\<newline>old\<newline>\<newline>''
     (archive (save_msg [bo] ''T'' [''T.md'' \<mapsto> ''## T\<newline>\<newline>old\<newline>\<newline>'']) ''T'') \<and>
   save_msg [bo] ''T'' [''T.md'' \<mapsto> ''## T\<newline>\<newline>old\<newline>\<newline>''] ''U.md'' = None"
proof -
  let ?fs = "[''T.md'' \<mapsto> ''## T\<newline>\<newline>old\<newline>\<newline>'']"
  have f: "to_filename ''T'' = ''T.md''" by (simp add: to_filename_def string_defs)
  then have e: "archive ?fs ''T'' = ''## T\<newline>\<newline>old\<newline>\<newline>''"
    by (simp add: archive_def)
  then have ne: "archive ?fs ''T'' \<noteq> []" by simp
  have cr: "CHR 0x0D \<notin> set (archive ?fs ''T'')" unfolding e by simp
  have u: "universal_newlines ''## T\<newline>\<newline>old\<newline>\<newline>'' = ''## T\<newline>\<newline>old\<newline>\<newline>''" by simp
  have n: "new_entries [bo] = [''##### Bo - t2\<newline>second'']"
    by (simp add: writer_defs string_defs bo_def)
  note inst = save_msg_keeps_existing [OF ne, of "[bo]"]
  from inst have "archive (save_msg [bo] ''T'' ?fs) ''T'' =
       join ''\<newline>\<newline>'' (new_entries [bo]) @ ''\<newline>\<newline>'' @ universal_newlines (archive ?fs ''T'')"
    by blast
  then have 1: "archive (save_msg [bo] ''T'' ?fs) ''T'' =
     ''##### Bo - t2\<newline>second\<newline>\<newline>## T\<newline>\<newline>old\<newline>\<newline>''"
    unfolding e n u by simp
  from inst cr have "suffix (archive ?fs ''T'') (archive (save_msg [bo] ''T'' ?fs) ''T'')"
    by blast
  then have 2: "suffix ''## T\<newline>\<newline>old\<newline>\<newline>'' (archive (save_msg [bo] ''T'' ?fs) ''T'')"
    unfolding e .
  from inst f have 3: "save_msg [bo] ''T'' ?fs ''U.md'' = None" by simp
  from 1 2 3 show ?thesis by blast
qed

text \<open>
  Claim C5. Whenever \<open>loop\<close> returns, on the message limit, on the date cutoff, at the
  end of the pages or on the user's refusal, \<open>download_chat\<close> ends after saving the
  whole buffer that the loop has left, when it is not empty. Every message of that
  buffer which the writer does not skip has its entry in the archive. Over the run,
  the batches handed to the writer followed each other to give the folder at the end,
  the buffer left by the loop is the end of their concatenation, and they hold as many
  messages as the loop has accepted.
\<close>

theorem download_chat_flushes_rest:
  assumes "resume cfg st = Proceed st0"
    and "loop lib cfg server (start st0) = Some (Inr s, st1, rest)"
  shows "download_chat lib cfg server st = Some (Inr (Done s), save_rest cfg st1) \<and>
     chats_folder (save_rest cfg st1) =
       (if messages st1 = [] then chats_folder st1
        else save_msg (messages st1) (chat_name (chat cfg)) (chats_folder st1)) \<and>
     (\<forall>m \<in> set (messages st1). \<not> skipped m \<longrightarrow>
        sublist (line m) (archive (chats_folder (save_rest cfg st1)) (chat_name (chat cfg)))) \<and>
     (\<exists>batches. chats_folder (save_rest cfg st1) =
          flushes batches (chat_name (chat cfg)) (chats_folder st) \<and>
        suffix (messages st1) (concat batches) \<and>
        int (length (concat batches)) = tot_msg st1)"
proof -
  have 1: "download_chat lib cfg server st = Some (Inr (Done s), save_rest cfg st1)"
    using assms by (simp add: download_chat_def)
  have 2: "chats_folder (save_rest cfg st1) =
       (if messages st1 = [] then chats_folder st1
        else save_msg (messages st1) (chat_name (chat cfg)) (chats_folder st1))"
    by (simp add: save_rest_def)
  have 3: "\<forall>m \<in> set (messages st1). \<not> skipped m \<longrightarrow>
        sublist (line m) (archive (chats_folder (save_rest cfg st1)) (chat_name (chat cfg)))"
  proof (intro ballI impI)
    fix m assume m: "m \<in> set (messages st1)" "\<not> skipped m"
    then have "messages st1 \<noteq> []" by auto
    then show "sublist (line m) (archive (chats_folder (save_rest cfg st1)) (chat_name (chat cfg)))"
      using entry_in_archive [OF m] by (simp add: save_rest_def)
  qed
  from accounted_loop [OF assms(2)] obtain new flushed where
    acc: "concat flushed @ messages st1 = messages (start st0) @ new"
      "tot_msg st1 = tot_msg (start st0) + int (length new)"
      "chats_folder st1 = flushes flushed (chat_name (chat cfg)) (chats_folder (start st0))"
    unfolding accounted_def by blast
  let ?batches = "flushed @ (if messages st1 = [] then [] else [messages st1])"
  have c: "concat ?batches = concat flushed @ messages st1" by simp
  have "chats_folder (start st0) = chats_folder st"
    using resume_frame [OF assms(1)] by (simp add: start_def)
  then have "chats_folder (save_rest cfg st1) = flushes ?batches (chat_name (chat cfg)) (chats_folder st)"
    using acc(3) by (simp only: save_rest_folder flushes_append)
  moreover have "suffix (messages st1) (concat ?batches)" using c by (simp add: suffix_def)
  moreover have "int (length (concat ?batches)) = tot_msg st1"
    using acc(1,2) c by (simp add: start_def)
  ultimately have 4: "\<exists>batches. chats_folder (save_rest cfg st1) =
          flushes batches (chat_name (chat cfg)) (chats_folder st) \<and>
        suffix (messages st1) (concat batches) \<and>
        int (length (concat batches)) = tot_msg st1" by blast
  from 1 2 3 4 show ?thesis by blast
qed

text \<open>
  Four runs, one for each way the loop returns; in each the message left in the
  buffer is in the archive at the end.
\<close>

theorem download_chat_flushes_rest_witness:
  "(\<exists>st'. download_chat basic_lib (settings None None 1)
        [ok_page [plain ''Al'' ''hi'' ''t1''] (Some ''u2'')] (fresh\<lparr>stdin := [''n'']\<rparr>) =
        Some (Inr (Done Declined), st') \<and>
      sublist ''##### Al - t1\<newline>hi'' (archive (chats_folder st') ''T'')) \<and>
   map_option (\<lambda>(r, st). (r, archive (chats_folder st) ''T''))
     (download_chat basic_lib (settings None None 1)
        [ok_page [plain ''Al'' ''hi'' ''t1''] (Some ''u2'')] (fresh\<lparr>stdin := [''n'']\<rparr>)) =
     Some (Inr (Done Declined), ''## T\<newline>\<newline>##### Al - t1\<newline>hi\<newline>\<newline>'') \<and>
   map_option (\<lambda>(r, st). (r, archive (chats_folder st) ''T''))
     (download_chat basic_lib (settings None None 1) [ok_page [plain ''Al'' ''hi'' ''t1''] None] fresh) =
     Some (Inr (Done Exhausted), ''## T\<newline>\<newline>##### Al - t1\<newline>hi\<newline>\<newline>'') \<and>
   map_option (\<lambda>(r, st). (r, archive (chats_folder st) ''T''))
     (download_chat basic_lib (settings (Some 1) None 1)
        [ok_page [plain ''Al'' ''hi'' ''t1'', plain ''Bo'' ''yo'' ''t2''] None] fresh) =
     Some (Inr (Done MaxReached), ''## T\<newline>\<newline>##### Al - t1\<newline>hi\<newline>\<newline>'') \<and>
   map_option (\<lambda>(r, st). (r, archive (chats_folder st) ''T''))
     (download_chat basic_lib (settings None (Some \<lparr>year = 2024, month = 5, day = 1\<rparr>) 0)
        [ok_page [plain ''Al'' ''hi'' ''2024-05-01T10:00:00Z'',
                  plain ''Bo'' ''yo'' ''2024-04-30T23:59:59Z''] (Some ''u2'')] fresh) =
     Some (Inr (Done OldestReached), ''## T\<newline>\<newline>##### Al - 2024-05-01T10:00:00Z\<newline>hi\<newline>\<newline>'')"
proof -
  let ?cfg = "settings None None 1"
  let ?server = "[ok_page [plain ''Al'' ''hi'' ''t1''] (Some ''u2'')]"
  let ?st = "fresh\<lparr>stdin := [''n'']\<rparr>"
  let ?al = "\<lparr>msg_from = ''Al'', msg_body = ''hi'', msg_attachments = [], msg_time = ''t1''\<rparr>"
  obtain st0 where r: "resume ?cfg ?st = Proceed st0"
    and s0: "st0 = ?st\<lparr>url := GRAPH_URL @ ''/'' @ ''c1'' @ ''/'' @ MESSAGES_PATH, params := Some TOP_PARAM\<rparr>"
    by (simp add: run_defs)
  have "\<exists>st1 rest. loop basic_lib ?cfg ?server (start st0) = Some (Inr Declined, st1, rest) \<and>
      messages st1 = [?al]"
    unfolding s0 by (simp add: run_defs string_defs)
  then obtain st1 rest where l: "loop basic_lib ?cfg ?server (start st0) = Some (Inr Declined, st1, rest)"
    and m: "messages st1 = [?al]" by blast
  have k: "\<not> skipped ?al" by (simp add: skipped_def string_defs)
  note th = download_chat_flushes_rest [OF r l]
  have mem: "?al \<in> set (messages st1)" by (simp add: m)
  from th have "\<forall>m \<in> set (messages st1). \<not> skipped m \<longrightarrow>
      sublist (line m) (archive (chats_folder (save_rest ?cfg st1)) (chat_name (chat ?cfg)))"
    by blast
  with mem k
  have "sublist (line ?al) (archive (chats_folder (save_rest ?cfg st1)) (chat_name (chat ?cfg)))"
    by blast
  moreover from th
  have "download_chat basic_lib ?cfg ?server ?st = Some (Inr (Done Declined), save_rest ?cfg st1)"
    by blast
  ultimately
  have "download_chat basic_lib ?cfg ?server ?st = Some (Inr (Done Declined), save_rest ?cfg st1) \<and>
     sublist (line ?al) (archive (chats_folder (save_rest ?cfg st1)) (chat_name (chat ?cfg)))"
    by blast
  then have a: "\<exists>st'. download_chat basic_lib ?cfg ?server ?st = Some (Inr (Done Declined), st') \<and>
      sublist ''##### Al - t1\<newline>hi'' (archive (chats_folder st') ''T'')"
    by (simp add: line_def settings_def)
  have b: "map_option (\<lambda>(r, st). (r, archive (chats_folder st) ''T''))
     (download_chat basic_lib ?cfg ?server ?st) =
     Some (Inr (Done Declined), ''## T\<newline>\<newline>##### Al - t1\<newline>hi\<newline>\<newline>'')"
    by (simp add: run_defs writer_defs string_defs)
  have c: "map_option (\<lambda>(r, st). (r, archive (chats_folder st) ''T''))
     (download_chat basic_lib (settings None None 1) [ok_page [plain ''Al'' ''hi'' ''t1''] None] fresh) =
     Some (Inr (Done Exhausted), ''## T\<newline>\<newline>##### Al - t1\<newline>hi\<newline>\<newline>'')"
    by (simp add: run_defs writer_defs string_defs)
  have d: "map_option (\<lambda>(r, st). (r, archive (chats_folder st) ''T''))
     (download_chat basic_lib (settings (Some 1) None 1)
        [ok_page [plain ''Al'' ''hi'' ''t1'', plain ''Bo'' ''yo'' ''t2''] None] fresh) =
     Some (Inr (Done MaxReached), ''## T\<newline>\<newline>##### Al - t1\<newline>hi\<newline>\<newline>'')"
    by (simp add: run_defs writer_defs string_defs)
  have e: "map_option (\<lambda>(r, st). (r, archive (chats_folder st) ''T''))
     (download_chat basic_lib (settings None (Some \<lparr>year = 2024, month = 5, day = 1\<rparr>) 0)
        [ok_page [plain ''Al'' ''hi'' ''2024-05-01T10:00:00Z'',
                  plain ''Bo'' ''yo'' ''2024-04-30T23:59:59Z''] (Some ''u2'')] fresh) =
     Some (Inr (Done OldestReached), ''## T\<newline>\<newline>##### Al - 2024-05-01T10:00:00Z\<newline>hi\<newline>\<newline>'')"
    by (simp add: run_defs writer_defs string_defs date_defs)
  from a b c d e show ?thesis by blast
qed

text \<open>
  Claim C6. With a cutoff date configured, a well-formed record of type \<open>message\<close>
  whose date is the cutoff date is appended to the buffer and counted. A record of type
  \<open>message\<close> whose date is before the cutoff makes the loop over the page return at
  once, whatever follows it on the page: the state is the one reached before the
  record, \<open>loop\<close> returns with it, and the responses that the server still holds are
  not asked for.
\<close>

theorem oldest_date_cutoff:
  assumes "oldest_date cfg = Some d" and "messageType msg = Some ''message''"
    and "createdDateTime msg = Some s" and "load_date lib s = Inr d'"
    and "for_msg lib cfg before st = (None, st1)"
  shows "(d' = d \<longrightarrow> (\<forall>m. to_message msg = Some m \<longrightarrow>
            for_msg lib cfg (before @ msg # rest) st =
              (if max_reached (max_messages cfg) (tot_msg st1 + 1)
               then (Some MaxReached, st1\<lparr>messages := messages st1 @ [m], tot_msg := tot_msg st1 + 1\<rparr>)
               else for_msg lib cfg rest
                      (st1\<lparr>messages := messages st1 @ [m], tot_msg := tot_msg st1 + 1\<rparr>)))) \<and>
         (date_less d' d \<longrightarrow>
            for_msg lib cfg (before @ msg # rest) st = (Some OldestReached, st1) \<and>
            (\<forall>res server. \<not> (400 \<le> status_code res \<and> status_code res < 600) \<and>
                 page_value (json res) = before @ msg # rest \<longrightarrow>
               loop lib cfg (res # server) st = Some (Inr OldestReached, st1, server)))"
proof -
  have split: "for_msg lib cfg (before @ msg # rest) st = for_msg lib cfg (msg # rest) st1"
    using assms(5) by (simp add: for_msg_append)
  have old: "too_old lib (oldest_date cfg) msg = Inr (date_less d' d)"
    using assms(1,3,4) by (simp add: too_old_def)
  have keep: "d' = d \<longrightarrow> (\<forall>m. to_message msg = Some m \<longrightarrow>
            for_msg lib cfg (before @ msg # rest) st =
              (if max_reached (max_messages cfg) (tot_msg st1 + 1)
               then (Some MaxReached, st1\<lparr>messages := messages st1 @ [m], tot_msg := tot_msg st1 + 1\<rparr>)
               else for_msg lib cfg rest
                      (st1\<lparr>messages := messages st1 @ [m], tot_msg := tot_msg st1 + 1\<rparr>)))"
    using split old assms(2) by (simp add: date_less_irrefl Let_def)
  have stop: "date_less d' d \<longrightarrow> for_msg lib cfg (before @ msg # rest) st = (Some OldestReached, st1)"
    using split old assms(2) by simp
  have "date_less d' d \<longrightarrow>
      (\<forall>res server. \<not> (400 \<le> status_code res \<and> status_code res < 600) \<and>
                 page_value (json res) = before @ msg # rest \<longrightarrow>
               loop lib cfg (res # server) st = Some (Inr OldestReached, st1, server))"
    using stop by (simp add: loop_body_def)
  with keep stop show ?thesis by blast
qed

text \<open>
  With the cutoff on 1 May 2024: a message of that day is kept, and a message of the
  day before stops the run before the message and the page behind it.
\<close>

theorem oldest_date_cutoff_witness:
  "map_option (\<lambda>(r, st, rest). (r, map msg_from (messages st), length rest))
     (loop basic_lib (settings None (Some \<lparr>year = 2024, month = 5, day = 1\<rparr>) 0)
        [ok_page [plain ''Al'' ''hi'' ''2024-05-01T10:00:00Z'',
                  plain ''Bo'' ''yo'' ''2024-04-30T23:59:59Z'',
                  plain ''Cy'' ''ha'' ''2024-05-02T08:00:00Z''] (Some ''u2''),
         ok_page [plain ''Di'' ''no'' ''2024-05-03T08:00:00Z''] None] (start fresh)) =
   Some (Inr OldestReached, [''Al''], 1)"
proof -
  let ?d = "\<lparr>year = 2024, month = 5, day = 1\<rparr>"
  let ?d' = "\<lparr>year = 2024, month = 4, day = 30\<rparr>"
  let ?cfg = "settings None (Some ?d) 0"
  let ?al = "plain ''Al'' ''hi'' ''2024-05-01T10:00:00Z''"
  let ?bo = "plain ''Bo'' ''yo'' ''2024-04-30T23:59:59Z''"
  let ?cy = "plain ''Cy'' ''ha'' ''2024-05-02T08:00:00Z''"
  let ?res = "ok_page [?al, ?bo, ?cy] (Some ''u2'')"
  let ?server = "[ok_page [plain ''Di'' ''no'' ''2024-05-03T08:00:00Z''] None]"
  have c: "oldest_date ?cfg = Some ?d" by (simp add: settings_def)
  have ty: "messageType ?bo = Some ''message''" by (simp add: plain_def)
  have tm: "createdDateTime ?bo = Some ''2024-04-30T23:59:59Z''" by (simp add: plain_def)
  have ld: "load_date basic_lib ''2024-04-30T23:59:59Z'' = Inr ?d'" by (simp add: date_defs)
  have ld0: "load_date basic_lib ''2024-05-01T10:00:00Z'' = Inr ?d" by (simp add: date_defs)
  obtain x st1 where f: "for_msg basic_lib ?cfg [?al] (start fresh) = (x, st1)"
    by (cases "for_msg basic_lib ?cfg [?al] (start fresh)")
  then have x: "x = None" and m: "map msg_from (messages st1) = [''Al'']"
    using ld0 by (auto simp: settings_def plain_def too_old_def to_message_def max_reached_def
        date_less_def start_def fresh_def Let_def)
  from f x have f': "for_msg basic_lib ?cfg [?al] (start fresh) = (None, st1)" by simp
  have less: "date_less ?d' ?d" by (simp add: date_less_def)
  have ok: "\<not> (400 \<le> status_code ?res \<and> status_code ?res < 600) \<and>
      page_value (json ?res) = [?al] @ ?bo # [?cy]" by (simp add: ok_page_def)
  from oldest_date_cutoff [OF c ty tm ld f', of "[?cy]"] less ok
  have "loop basic_lib ?cfg (?res # ?server) (start fresh) = Some (Inr OldestReached, st1, ?server)"
    by blast
  with m show ?thesis by simp
qed

text \<open>
  Claim C7, as stated, fails, in four ways. With a limit of one message and a stream of
  one message whose body is empty, as that of a deleted message, the loop accepts one
  message and the archive receives the title and no entry. With the same limit and a
  stream of one record of type \<open>message\<close> whose sender cannot be read, the loop accepts
  nothing and ends with the pages. With a limit of two messages and a stream of two,
  the user who is asked after the first page and refuses ends the run with one message.
  With a limit of two messages and a page of three, the second older than the cutoff,
  the run ends on the cutoff with one message.
\<close>

theorem max_messages_written_counterexample:
  "map_option (\<lambda>(r, st). (r, tot_msg st, archive (chats_folder st) ''T''))
     (download_chat basic_lib (settings (Some 1) None 0) [ok_page [plain ''Al'' [] ''t1''] None] fresh) =
     Some (Inr (Done MaxReached), 1, ''## T\<newline>\<newline>'') \<and>
   map_option (\<lambda>(r, st). (r, tot_msg st, archive (chats_folder st) ''T''))
     (download_chat basic_lib (settings (Some 1) None 0)
        [ok_page [(plain ''Al'' ''hi'' ''t1'')\<lparr>from_user_displayName := None\<rparr>] None] fresh) =
     Some (Inr (Done Exhausted), 0, []) \<and>
   map_option (\<lambda>(r, st). (r, tot_msg st))
     (download_chat basic_lib (settings (Some 2) None 1)
        [ok_page [plain ''Al'' ''hi'' ''t1''] (Some ''u2''), ok_page [plain ''Bo'' ''yo'' ''t2''] None]
        (fresh\<lparr>stdin := [''n'']\<rparr>)) =
     Some (Inr (Done Declined), 1) \<and>
   map_option (\<lambda>(r, st). (r, tot_msg st))
     (download_chat basic_lib (settings (Some 2) (Some \<lparr>year = 2024, month = 5, day = 1\<rparr>) 0)
        [ok_page [plain ''Al'' ''hi'' ''2024-05-01T10:00:00Z'',
                  plain ''Bo'' ''yo'' ''2024-04-30T23:59:59Z'',
                  plain ''Cy'' ''ha'' ''2024-05-02T08:00:00Z''] None] fresh) =
     Some (Inr (Done OldestReached), 1)"
proof -
  have a: "map_option (\<lambda>(r, st). (r, tot_msg st, archive (chats_folder st) ''T''))
     (download_chat basic_lib (settings (Some 1) None 0) [ok_page [plain ''Al'' [] ''t1''] None] fresh) =
     Some (Inr (Done MaxReached), 1, ''## T\<newline>\<newline>'')"
    by (simp add: run_defs writer_defs string_defs)
  have b: "map_option (\<lambda>(r, st). (r, tot_msg st, archive (chats_folder st) ''T''))
     (download_chat basic_lib (settings (Some 1) None 0)
        [ok_page [(plain ''Al'' ''hi'' ''t1'')\<lparr>from_user_displayName := None\<rparr>] None] fresh) =
     Some (Inr (Done Exhausted), 0, [])"
    by (simp add: run_defs writer_defs string_defs)
  have c: "map_option (\<lambda>(r, st). (r, tot_msg st))
     (download_chat basic_lib (settings (Some 2) None 1)
        [ok_page [plain ''Al'' ''hi'' ''t1''] (Some ''u2''), ok_page [plain ''Bo'' ''yo'' ''t2''] None]
        (fresh\<lparr>stdin := [''n'']\<rparr>)) =
     Some (Inr (Done Declined), 1)"
    by (simp add: run_defs string_defs)
  have d: "map_option (\<lambda>(r, st). (r, tot_msg st))
     (download_chat basic_lib (settings (Some 2) (Some \<lparr>year = 2024, month = 5, day = 1\<rparr>) 0)
        [ok_page [plain ''Al'' ''hi'' ''2024-05-01T10:00:00Z'',
                  plain ''Bo'' ''yo'' ''2024-04-30T23:59:59Z'',
                  plain ''Cy'' ''ha'' ''2024-05-02T08:00:00Z''] None] fresh) =
     Some (Inr (Done OldestReached), 1)"
    by (simp add: run_defs date_defs)
  from a b c d show ?thesis by blast
qed

text \<open>
  Claim C7, amended. Let the limit be a positive \<open>n\<close>. Let the server answer with pages
  without error, each naming a next page and none holding a record older than the
  cutoff, that hold fewer than \<open>n\<close> well-formed records of type \<open>message\<close>, and then with
  a page on which, before any record older than the cutoff, their number comes to \<open>n\<close>
  or more. Let the console hold an answer for each question that the loop puts to the
  user on the way, and none of these answers be a refusal. Then the run ends on the
  limit on that page, without asking for the responses behind it; the loop has accepted
  exactly \<open>n\<close> messages, the first \<open>n\<close> well-formed ones of the stream; and these are the
  messages handed to the writer over the run, batch after batch. The writer adds one
  entry for each message of a batch that it does not skip.
\<close>

theorem max_messages_exact:
  assumes "max_messages cfg = Some n" and "0 < n" and "resume cfg st = Proceed st0"
    and "\<forall>r \<in> set pre. \<not> (400 \<le> status_code r \<and> status_code r < 600) \<and>
           truthy (nextLink (json r)) \<and> (\<forall>msg \<in> set (page_value (json r)). \<not> stopper lib cfg msg)"
    and "\<not> (400 \<le> status_code res \<and> status_code res < 600)"
    and "prompts (ask_continue cfg) 1 (length pre) \<le> length (stdin st0)"
    and "\<forall>x \<in> set (take (prompts (ask_continue cfg) 1 (length pre)) (stdin st0)). \<not> answers x ''n''"
    and "int (length (stream_candidates lib cfg pre)) < n"
    and "n \<le> int (length (stream_candidates lib cfg pre)) +
           int (length (candidates lib cfg (before_cutoff lib cfg (page_value (json res)))))"
  shows "\<exists>st1 batches.
     loop lib cfg (pre @ res # post) (start st0) = Some (Inr MaxReached, st1, post) \<and>
     download_chat lib cfg (pre @ res # post) st = Some (Inr (Done MaxReached), save_rest cfg st1) \<and>
     tot_msg (save_rest cfg st1) = n \<and>
     concat batches = take (nat n) (stream_candidates lib cfg (pre @ [res])) \<and>
     chats_folder (save_rest cfg st1) = flushes batches (chat_name (chat cfg)) (chats_folder st) \<and>
     (\<forall>b. length (new_entries b) = length (filter (\<lambda>m. \<not> skipped m) b))"
proof -
  have t0: "tot_msg (start st0) = 0" and m0: "messages (start st0) = []"
    and f0: "chats_folder (start st0) = chats_folder st"
    and s0: "since_confirm (start st0) = 1" and i0: "stdin (start st0) = stdin st0"
    using resume_frame [OF assms(3)] by (simp_all add: start_def)
  have inv: "0 < ask_continue cfg \<longrightarrow>
      1 \<le> since_confirm (start st0) \<and> since_confirm (start st0) \<le> ask_continue cfg"
    using s0 by simp
  have en: "prompts (ask_continue cfg) (since_confirm (start st0)) (length pre)
      \<le> length (stdin (start st0))"
    using assms(6) s0 i0 by simp
  have yes: "\<forall>x \<in> set (take (prompts (ask_continue cfg) (since_confirm (start st0)) (length pre))
       (stdin (start st0))). \<not> answers x ''n''"
    using assms(7) s0 i0 by simp
  have lt: "tot_msg (start st0) + int (length (stream_candidates lib cfg pre)) < n"
    using assms(8) t0 by simp
  have ge: "n \<le> tot_msg (start st0) + int (length (stream_candidates lib cfg pre)) +
      int (length (candidates lib cfg (before_cutoff lib cfg (page_value (json res)))))"
    using assms(9) t0 by simp
  from loop_hits_max [OF assms(1,2,5,4) inv en yes lt ge, of post]
  obtain st1 flushed where
    l: "loop lib cfg (pre @ res # post) (start st0) = Some (Inr MaxReached, st1, post)"
    and t: "tot_msg st1 = n"
    and c: "concat flushed @ messages st1 =
        messages (start st0) @
          take (nat (n - tot_msg (start st0))) (stream_candidates lib cfg (pre @ [res]))"
    and fl: "chats_folder st1 = flushes flushed (chat_name (chat cfg)) (chats_folder (start st0))"
    by blast
  let ?batches = "flushed @ (if messages st1 = [] then [] else [messages st1])"
  have d: "download_chat lib cfg (pre @ res # post) st = Some (Inr (Done MaxReached), save_rest cfg st1)"
    using assms(3) l by (simp add: download_chat_def)
  have "concat ?batches = concat flushed @ messages st1" by simp
  then have cb: "concat ?batches = take (nat n) (stream_candidates lib cfg (pre @ [res]))"
    using c t0 m0 by simp
  have fb: "chats_folder (save_rest cfg st1) = flushes ?batches (chat_name (chat cfg)) (chats_folder st)"
    using fl f0 by (simp only: save_rest_folder flushes_append)
  have ne: "\<forall>b. length (new_entries b) = length (filter (\<lambda>m. \<not> skipped m) b)"
    by (simp add: new_entries_eq)
  have tr: "tot_msg (save_rest cfg st1) = n" using t by (simp add: save_rest_frame)
  show ?thesis
    by (rule exI [of _ st1], rule exI [of _ ?batches]) (use l d tr cb fb ne in blast)
qed

text \<open>
  Three pages and a limit of five, with a cutoff on 1 May 2024 and a question to the
  user every two requests, which the user answers with yes: five messages are accepted
  and handed to the writer; the record older than the cutoff that follows the fifth
  and the record behind it are not read. The same holds with the question asked every
  hundred requests, which is never put, and no cutoff.
\<close>

theorem max_messages_exact_witness:
  "(\<exists>st'. download_chat basic_lib (settings (Some 5) (Some \<lparr>year = 2024, month = 5, day = 1\<rparr>) 2)
        [ok_page [plain ''a'' ''1'' ''2024-05-09T10:00:00Z'',
                  plain ''b'' ''2'' ''2024-05-08T10:00:00Z''] (Some ''u2''),
         ok_page [plain ''c'' ''3'' ''2024-05-07T10:00:00Z'',
                  plain ''d'' ''4'' ''2024-05-06T10:00:00Z''] (Some ''u3''),
         ok_page [plain ''e'' ''5'' ''2024-05-05T10:00:00Z'',
                  plain ''f'' ''6'' ''2024-04-30T10:00:00Z'',
                  plain ''g'' ''7'' ''2024-05-03T10:00:00Z''] None]
        (fresh\<lparr>stdin := [''y'']\<rparr>) =
       Some (Inr (Done MaxReached), st') \<and> tot_msg st' = 5) \<and>
   map_option (\<lambda>(r, st). (r, tot_msg st, map msg_from (messages st)))
     (download_chat basic_lib (settings (Some 5) (Some \<lparr>year = 2024, month = 5, day = 1\<rparr>) 2)
        [ok_page [plain ''a'' ''1'' ''2024-05-09T10:00:00Z'',
                  plain ''b'' ''2'' ''2024-05-08T10:00:00Z''] (Some ''u2''),
         ok_page [plain ''c'' ''3'' ''2024-05-07T10:00:00Z'',
                  plain ''d'' ''4'' ''2024-05-06T10:00:00Z''] (Some ''u3''),
         ok_page [plain ''e'' ''5'' ''2024-05-05T10:00:00Z'',
                  plain ''f'' ''6'' ''2024-04-30T10:00:00Z'',
                  plain ''g'' ''7'' ''2024-05-03T10:00:00Z''] None]
        (fresh\<lparr>stdin := [''y'']\<rparr>)) =
     Some (Inr (Done MaxReached), 5, [''a'', ''b'', ''c'', ''d'', ''e'']) \<and>
   map_option (\<lambda>(r, st). (r, tot_msg st, archive (chats_folder st) ''T''))
     (download_chat basic_lib (settings (Some 5) None 100)
        [ok_page [plain ''a'' ''1'' ''t'', plain ''b'' ''2'' ''t''] (Some ''u2''),
         ok_page [plain ''c'' ''3'' ''t'', plain ''d'' ''4'' ''t''] (Some ''u3''),
         ok_page [plain ''e'' ''5'' ''t'', plain ''f'' ''6'' ''t''] None] fresh) =
   Some (Inr (Done MaxReached), 5,
     ''## T\<newline>\<newline>##### e - t\<newline>5\<newline>\<newline>##### d - t\<newline>4\<newline>\<newline>##### c - t\<newline>3\<newline>\<newline>##### b - t\<newline>2\<newline>\<newline>##### a - t\<newline>1\<newline>\<newline>'')"
proof -
  let ?cfg = "settings (Some 5) (Some \<lparr>year = 2024, month = 5, day = 1\<rparr>) 2"
  let ?p1 = "ok_page [plain ''a'' ''1'' ''2024-05-09T10:00:00Z'',
                      plain ''b'' ''2'' ''2024-05-08T10:00:00Z''] (Some ''u2'')"
  let ?p2 = "ok_page [plain ''c'' ''3'' ''2024-05-07T10:00:00Z'',
                      plain ''d'' ''4'' ''2024-05-06T10:00:00Z''] (Some ''u3'')"
  let ?p3 = "ok_page [plain ''e'' ''5'' ''2024-05-05T10:00:00Z'',
                      plain ''f'' ''6'' ''2024-04-30T10:00:00Z'',
                      plain ''g'' ''7'' ''2024-05-03T10:00:00Z''] None"
  let ?st = "fresh\<lparr>stdin := [''y'']\<rparr>"
  have h1: "max_messages ?cfg = Some 5" by (simp add: settings_def)
  have h2: "(0::int) < 5" by simp
  have "\<exists>st0. resume ?cfg ?st = Proceed st0 \<and> stdin st0 = [''y'']" by (simp add: run_defs)
  then obtain st0 where h3: "resume ?cfg ?st = Proceed st0" and i: "stdin st0 = [''y'']" by blast
  have h4: "\<forall>r \<in> set [?p1, ?p2]. \<not> (400 \<le> status_code r \<and> status_code r < 600) \<and>
      truthy (nextLink (json r)) \<and> (\<forall>msg \<in> set (page_value (json r)). \<not> stopper basic_lib ?cfg msg)"
    by (simp add: cand_defs date_defs truthy_def)
  have h5: "\<not> (400 \<le> status_code ?p3 \<and> status_code ?p3 < 600)" by (simp add: ok_page_def)
  have p: "prompts (ask_continue ?cfg) 1 (length [?p1, ?p2]) = 1"
    by (simp add: prompts_def settings_def)
  have h6: "prompts (ask_continue ?cfg) 1 (length [?p1, ?p2]) \<le> length (stdin st0)"
    unfolding p i by simp
  have h7: "\<forall>x \<in> set (take (prompts (ask_continue ?cfg) 1 (length [?p1, ?p2])) (stdin st0)).
      \<not> answers x ''n''"
    unfolding p i by (simp add: answers_def string_defs)
  have h8: "int (length (stream_candidates basic_lib ?cfg [?p1, ?p2])) < 5"
    by (simp add: cand_defs date_defs)
  have h9: "5 \<le> int (length (stream_candidates basic_lib ?cfg [?p1, ?p2])) +
      int (length (candidates basic_lib ?cfg (before_cutoff basic_lib ?cfg (page_value (json ?p3)))))"
    by (simp add: cand_defs date_defs)
  from max_messages_exact [OF h1 h2 h3 h4 h5 h6 h7 h8 h9, of "[]"]
  obtain st1 where
    "download_chat basic_lib ?cfg ([?p1, ?p2] @ ?p3 # []) ?st =
       Some (Inr (Done MaxReached), save_rest ?cfg st1)"
    "tot_msg (save_rest ?cfg st1) = 5" by blast
  then have a: "\<exists>st'. download_chat basic_lib ?cfg [?p1, ?p2, ?p3] ?st =
       Some (Inr (Done MaxReached), st') \<and> tot_msg st' = 5" by simp
  have b: "map_option (\<lambda>(r, st). (r, tot_msg st, map msg_from (messages st)))
     (download_chat basic_lib ?cfg [?p1, ?p2, ?p3] ?st) =
     Some (Inr (Done MaxReached), 5, [''a'', ''b'', ''c'', ''d'', ''e''])"
    by (simp add: run_defs date_defs string_defs)
  have c: "map_option (\<lambda>(r, st). (r, tot_msg st, archive (chats_folder st) ''T''))
     (download_chat basic_lib (settings (Some 5) None 100)
        [ok_page [plain ''a'' ''1'' ''t'', plain ''b'' ''2'' ''t''] (Some ''u2''),
         ok_page [plain ''c'' ''3'' ''t'', plain ''d'' ''4'' ''t''] (Some ''u3''),
         ok_page [plain ''e'' ''5'' ''t'', plain ''f'' ''6'' ''t''] None] fresh) =
   Some (Inr (Done MaxReached), 5,
     ''## T\<newline>\<newline>##### e - t\<newline>5\<newline>\<newline>##### d - t\<newline>4\<newline>\<newline>##### c - t\<newline>3\<newline>\<newline>##### b - t\<newline>2\<newline>\<newline>##### a - t\<newline>1\<newline>\<newline>'')"
    by (simp add: run_defs writer_defs string_defs)
  from a b c show ?thesis by blast
qed

text \<open>
  Claim C8. No run of \<open>download_chat\<close> raises an HTTP error of status 403. When a
  request of the loop fails, the status is that of a response of the server, between
  400 and 599; if it is 403, \<open>download_chat\<close> returns normally, with the state the loop
  has left, and any other status is raised again to the caller. So when the loop is
  still running after some responses and the next response has such a status, the
  download ends there, normally for 403 and with the error for any other status.
\<close>

theorem forbidden_skips_chat:
  "download_chat lib cfg server st \<noteq> Some (Inl (HTTPError 403), st'') \<and>
   (resume cfg st = Proceed st0 \<and>
    loop lib cfg server (start st0) = Some (Inl (HTTPError c), st', rest) \<longrightarrow>
      (\<exists>res \<in> set server. status_code res = c \<and> 400 \<le> c \<and> c < 600) \<and>
      download_chat lib cfg server st =
        Some (if c = 403 then Inr CannotDownload else Inl (HTTPError c), st')) \<and>
   (resume cfg st = Proceed st0 \<and> loop lib cfg pre (start st0) = None \<and>
    400 \<le> status_code res \<and> status_code res < 600 \<longrightarrow>
      (\<exists>st1. download_chat lib cfg (pre @ res # later) st =
         Some (if status_code res = 403 then Inr CannotDownload
               else Inl (HTTPError (status_code res)), st1)))"
proof -
  have 1: "download_chat lib cfg server st \<noteq> Some (Inl (HTTPError 403), st'')"
    using resume_error [of cfg st]
    by (auto simp: download_chat_def
        split: entry.splits sum.splits option.splits prod.splits if_splits)
  have 2: "resume cfg st = Proceed st0 \<and>
    loop lib cfg server (start st0) = Some (Inl (HTTPError c), st', rest) \<longrightarrow>
      (\<exists>res \<in> set server. status_code res = c \<and> 400 \<le> c \<and> c < 600) \<and>
      download_chat lib cfg server st =
        Some (if c = 403 then Inr CannotDownload else Inl (HTTPError c), st')"
  proof
    assume h: "resume cfg st = Proceed st0 \<and>
      loop lib cfg server (start st0) = Some (Inl (HTTPError c), st', rest)"
    then have "\<exists>res \<in> set server. status_code res = c \<and> 400 \<le> c \<and> c < 600"
      using loop_http by blast
    moreover have "download_chat lib cfg server st =
        Some (if c = 403 then Inr CannotDownload else Inl (HTTPError c), st')"
      using h by (simp add: download_chat_def)
    ultimately show "(\<exists>res \<in> set server. status_code res = c \<and> 400 \<le> c \<and> c < 600) \<and>
      download_chat lib cfg server st =
        Some (if c = 403 then Inr CannotDownload else Inl (HTTPError c), st')" by blast
  qed
  have 3: "resume cfg st = Proceed st0 \<and> loop lib cfg pre (start st0) = None \<and>
    400 \<le> status_code res \<and> status_code res < 600 \<longrightarrow>
      (\<exists>st1. download_chat lib cfg (pre @ res # later) st =
         Some (if status_code res = 403 then Inr CannotDownload
               else Inl (HTTPError (status_code res)), st1))"
  proof
    assume h: "resume cfg st = Proceed st0 \<and> loop lib cfg pre (start st0) = None \<and>
      400 \<le> status_code res \<and> status_code res < 600"
    then obtain st1 where "loop lib cfg (pre @ res # later) (start st0) =
        Some (Inl (HTTPError (status_code res)), st1, later)"
      using loop_raises [of lib cfg pre "start st0" res later] by blast
    with h have "download_chat lib cfg (pre @ res # later) st =
         Some (if status_code res = 403 then Inr CannotDownload
               else Inl (HTTPError (status_code res)), st1)"
      by (simp add: download_chat_def)
    then show "\<exists>st1. download_chat lib cfg (pre @ res # later) st =
         Some (if status_code res = 403 then Inr CannotDownload
               else Inl (HTTPError (status_code res)), st1)" by blast
  qed
  from 1 2 3 show ?thesis by blast
qed

text \<open>
  A second page refused with status 403 ends the download normally; with status 500
  the error reaches the caller.
\<close>

theorem forbidden_skips_chat_witness:
  "map_option fst (download_chat basic_lib (settings None None 0)
        [ok_page [plain ''Al'' ''hi'' ''t1''] (Some ''u2''), failed 403] fresh) =
     Some (Inr CannotDownload) \<and>
   map_option fst (download_chat basic_lib (settings None None 0)
        [ok_page [plain ''Al'' ''hi'' ''t1''] (Some ''u2''), failed 500] fresh) =
     Some (Inl (HTTPError 500))"
proof -
  let ?cfg = "settings None None 0"
  let ?p = "ok_page [plain ''Al'' ''hi'' ''t1''] (Some ''u2'')"
  have "\<exists>st0. resume ?cfg fresh = Proceed st0 \<and> loop basic_lib ?cfg [?p] (start st0) = None"
    by (simp add: run_defs)
  then obtain st0 where r: "resume ?cfg fresh = Proceed st0"
    and l: "loop basic_lib ?cfg [?p] (start st0) = None" by blast
  have s: "status_code (failed 403) = 403" "status_code (failed 500) = 500"
    by (simp_all add: failed_def)
  have "\<exists>st1. download_chat basic_lib ?cfg ([?p] @ failed 403 # []) fresh =
      Some (if status_code (failed 403) = 403 then Inr CannotDownload
            else Inl (HTTPError (status_code (failed 403))), st1)"
    using forbidden_skips_chat [where lib = basic_lib and cfg = ?cfg and st = fresh
        and ?st0.0 = st0 and pre = "[?p]" and res = "failed 403" and later = "[]"] r l s
    by simp
  then have a: "map_option fst (download_chat basic_lib ?cfg [?p, failed 403] fresh) =
      Some (Inr CannotDownload)" using s by auto
  have "\<exists>st1. download_chat basic_lib ?cfg ([?p] @ failed 500 # []) fresh =
      Some (if status_code (failed 500) = 403 then Inr CannotDownload
            else Inl (HTTPError (status_code (failed 500))), st1)"
    using forbidden_skips_chat [where lib = basic_lib and cfg = ?cfg and st = fresh
        and ?st0.0 = st0 and pre = "[?p]" and res = "failed 500" and later = "[]"] r l s
    by simp
  then have b: "map_option fst (download_chat basic_lib ?cfg [?p, failed 500] fresh) =
      Some (Inl (HTTPError 500))" using s by auto
  from a b show ?thesis by simp
qed

text \<open>
  Claim C9. With no limit, or with the limit 0, the loop never returns on the message
  limit, and neither does \<open>download_chat\<close>; the loop with the limit 0 is the loop with
  no limit.
\<close>

theorem max_messages_zero_disabled:
  assumes "max_messages cfg = None \<or> max_messages cfg = Some 0"
  shows "loop lib cfg server st \<noteq> Some (Inr MaxReached, st', rest) \<and>
     download_chat lib cfg server st \<noteq> Some (Inr (Done MaxReached), st'') \<and>
     loop lib (cfg\<lparr>max_messages := Some 0\<rparr>) server st =
       loop lib (cfg\<lparr>max_messages := None\<rparr>) server st"
proof -
  have 1: "loop lib cfg server st \<noteq> Some (Inr MaxReached, st', rest)"
    using assms by (rule loop_no_max)
  have 2: "download_chat lib cfg server st \<noteq> Some (Inr (Done MaxReached), st'')"
    using loop_no_max [OF assms]
    by (auto simp: download_chat_def
        split: entry.splits sum.splits option.splits prod.splits if_splits)
  from 1 2 loop_zero show ?thesis by blast
qed

text \<open>
  With the limit 0, a page of two messages without a next page is read to its end:
  both messages are accepted.
\<close>

theorem max_messages_zero_disabled_witness:
  "map_option (\<lambda>(r, st, rest). (r, tot_msg st))
     (loop basic_lib (settings (Some 0) None 0)
        [ok_page [plain ''Al'' ''hi'' ''t1'', plain ''Bo'' ''yo'' ''t2''] None] (start fresh)) =
   Some (Inr Exhausted, 2) \<and>
   loop basic_lib (settings (Some 0) None 0)
        [ok_page [plain ''Al'' ''hi'' ''t1'', plain ''Bo'' ''yo'' ''t2''] None] (start fresh) =
   loop basic_lib (settings None None 0)
        [ok_page [plain ''Al'' ''hi'' ''t1'', plain ''Bo'' ''yo'' ''t2''] None] (start fresh)"
proof -
  let ?cfg = "settings (Some 0) None 0"
  let ?server = "[ok_page [plain ''Al'' ''hi'' ''t1'', plain ''Bo'' ''yo'' ''t2''] None]"
  have z: "max_messages ?cfg = None \<or> max_messages ?cfg = Some 0" by (simp add: settings_def)
  have a: "map_option (\<lambda>(r, st, rest). (r, tot_msg st)) (loop basic_lib ?cfg ?server (start fresh)) =
      Some (Inr Exhausted, 2)"
    by (simp add: run_defs)
  from max_messages_zero_disabled [OF z, of basic_lib ?server "start fresh"]
  have "loop basic_lib (?cfg\<lparr>max_messages := Some 0\<rparr>) ?server (start fresh) =
      loop basic_lib (?cfg\<lparr>max_messages := None\<rparr>) ?server (start fresh)" by blast
  then have "loop basic_lib ?cfg ?server (start fresh) =
      loop basic_lib (settings None None 0) ?server (start fresh)"
    by (simp add: settings_def)
  with a show ?thesis by simp
qed

text \<open>
  Claim C10. The file name is a stem followed by \<open>.md\<close>. The stem is what is left of
  the letters, digits and spaces of the title, in their order, once the spaces at the
  end are removed; it does not end in a space; and for a title without any letter,
  digit or space the file name is \<open>.md\<close>.
\<close>

theorem to_filename_stem:
  "\<exists>stem ws. to_filename title = stem @ ''.md'' \<and> filter keep_char title = stem @ ws \<and>
     (\<forall>c \<in> set ws. c = CHR '' '') \<and> (stem \<noteq> [] \<longrightarrow> last stem \<noteq> CHR '' '') \<and>
     ((\<forall>c \<in> set title. \<not> keep_char c) \<longrightarrow> to_filename title = ''.md'')"
proof -
  let ?kept = "filter keep_char title"
  from rstrip_parts [of ?kept] obtain ws where
    ws: "?kept = rstrip ?kept @ ws" "\<forall>c \<in> set ws. isspace c" by blast
  have "\<forall>c \<in> set ws. c = CHR '' ''"
  proof
    fix c assume c: "c \<in> set ws"
    then have "c \<in> set ?kept" using ws(1) by (metis Un_iff set_append)
    then have "keep_char c" by simp
    with c ws(2) show "c = CHR '' ''" by (simp add: keep_space)
  qed
  moreover have "rstrip ?kept \<noteq> [] \<longrightarrow> last (rstrip ?kept) \<noteq> CHR '' ''"
    using rstrip_last [of ?kept] isspace_space by auto
  moreover have "(\<forall>c \<in> set title. \<not> keep_char c) \<longrightarrow> to_filename title = ''.md''"
    by (simp add: to_filename_def rstrip_def filter_False)
  moreover have "to_filename title = rstrip ?kept @ ''.md''" by (simp add: to_filename_def)
  ultimately show ?thesis using ws(1) by blast
qed

text \<open>
  A title of punctuation only, and a title with punctuation and spaces at the end.
\<close>

theorem to_filename_stem_witness:
  "to_filename ''#!?'' = ''.md'' \<and> to_filename ''Team: Q&A!  '' = ''Team QA.md''"
proof -
  from to_filename_stem [of "''#!?''"]
  have "(\<forall>c \<in> set ''#!?''. \<not> keep_char c) \<longrightarrow> to_filename ''#!?'' = ''.md''" by blast
  moreover have "\<forall>c \<in> set ''#!?''. \<not> keep_char c" by (simp add: string_defs)
  ultimately have "to_filename ''#!?'' = ''.md''" by blast
  moreover have "to_filename ''Team: Q&A!  '' = ''Team QA.md''"
    by (simp add: to_filename_def string_defs)
  ultimately show ?thesis by simp
qed

end
